theory Spec2Isabelle
  imports Main "HOL-Library.Word"
begin

unbundle bit_operations_syntax

section \<open>Machine integers\<close>

type_synonym u8 = "8 word"
type_synonym u16 = "16 word"
type_synonym u32 = "32 word"

section \<open>MAC user object (srsenb/src/stack/mac/ue.cc)\<close>

subsection \<open>Softbuffers\<close>

text \<open>
  A softbuffer is kept abstract: only the cell width it was initialised with is recorded
  (\<^verbatim>\<open>srslte_softbuffer_rx_init(&buffer, nof_prb)\<close>). The vectors
  \<^verbatim>\<open>softbuffer_rx\<close> and \<^verbatim>\<open>softbuffer_tx\<close> hold one row per carrier.
\<close>

datatype srslte_softbuffer = Softbuffer_init u32

record ue_buffers =
  nof_prb :: u32
  nof_rx_harq_proc :: u32
  nof_tx_harq_proc :: u32
  softbuffer_rx :: "srslte_softbuffer list list"
  softbuffer_tx :: "srslte_softbuffer list list"

text \<open>
  \<^verbatim>\<open>ue::allocate_cc_buffers(num_cc)\<close>: each round of the loop appends one row of
  \<^verbatim>\<open>nof_rx_harq_proc\<close> receive buffers and one row of \<^verbatim>\<open>nof_tx_harq_proc\<close>
  transmit buffers; the size of the transmit vector is returned.
\<close>

definition allocate_cc_step :: "ue_buffers \<Rightarrow> ue_buffers" where
  "allocate_cc_step u =
     u\<lparr>softbuffer_rx := softbuffer_rx u @
            [replicate (unat (nof_rx_harq_proc u)) (Softbuffer_init (nof_prb u))],
       softbuffer_tx := softbuffer_tx u @
            [replicate (unat (nof_tx_harq_proc u)) (Softbuffer_init (nof_prb u))]\<rparr>"

definition allocate_cc_buffers :: "u32 \<Rightarrow> ue_buffers \<Rightarrow> nat \<times> ue_buffers" where
  "allocate_cc_buffers num_cc u =
     (let u' = (allocate_cc_step ^^ unat num_cc) u in (length (softbuffer_tx u'), u'))"

text \<open>The constructor: empty vectors, then \<^verbatim>\<open>allocate_cc_buffers()\<close> for the PCell
  (\<^verbatim>\<open>num_cc\<close> defaults to 1).\<close>

definition ue_ctor :: "u32 \<Rightarrow> u32 \<Rightarrow> u32 \<Rightarrow> ue_buffers" where
  "ue_ctor nof_prb0 nof_rx_harq_proc0 nof_tx_harq_proc0 =
     snd (allocate_cc_buffers 1
       \<lparr>nof_prb = nof_prb0, nof_rx_harq_proc = nof_rx_harq_proc0,
        nof_tx_harq_proc = nof_tx_harq_proc0, softbuffer_rx = [], softbuffer_tx = []\<rparr>)"

text \<open>
  What a softbuffer getter can do: return \<^verbatim>\<open>nullptr\<close>, return the address of element
  \<open>idx\<close> of row \<open>cc\<close>, divide by zero in the \<^verbatim>\<open>%\<close> (undefined behaviour in C++), or
  throw \<^verbatim>\<open>std::out_of_range\<close> from \<^verbatim>\<open>vector::at\<close>.
\<close>

datatype softbuffer_ptr = Nullptr | Ptr nat nat | Div_by_zero | Out_of_range

definition vector_at2 :: "'a list list \<Rightarrow> nat \<Rightarrow> nat \<Rightarrow> softbuffer_ptr" where
  "vector_at2 v cc idx =
     (if cc < length v \<and> idx < length (v ! cc) then Ptr cc idx else Out_of_range)"

definition get_rx_softbuffer :: "ue_buffers \<Rightarrow> u32 \<Rightarrow> u32 \<Rightarrow> softbuffer_ptr" where
  "get_rx_softbuffer u ue_cc_idx tti =
     (if unat ue_cc_idx \<ge> length (softbuffer_rx u) then Nullptr
      else if unat (nof_rx_harq_proc u) > length (softbuffer_rx u ! unat ue_cc_idx) then Nullptr
      else if nof_rx_harq_proc u = 0 then Div_by_zero
      else vector_at2 (softbuffer_rx u) (unat ue_cc_idx) (unat (tti mod nof_rx_harq_proc u)))"

text \<open>\<^verbatim>\<open>SRSLTE_MAX_TB\<close> is a constant of the PHY library headers; here it is the parameter
  \<open>max_tb\<close>. The index arithmetic is that of \<^verbatim>\<open>uint32_t\<close>.\<close>

definition get_tx_softbuffer :: "u32 \<Rightarrow> ue_buffers \<Rightarrow> u32 \<Rightarrow> u32 \<Rightarrow> u32 \<Rightarrow> softbuffer_ptr" where
  "get_tx_softbuffer max_tb u ue_cc_idx harq_process tb_idx =
     (if unat ue_cc_idx \<ge> length (softbuffer_tx u) then Nullptr
      else if unat (nof_tx_harq_proc u) > length (softbuffer_tx u ! unat ue_cc_idx) then Nullptr
      else if nof_tx_harq_proc u = 0 then Div_by_zero
      else vector_at2 (softbuffer_tx u) (unat ue_cc_idx)
             (unat ((harq_process * max_tb + tb_idx) mod nof_tx_harq_proc u)))"

text \<open>A returned pointer refers to an allocated buffer when it lies inside the vectors.\<close>

fun refers_to :: "'a list list \<Rightarrow> softbuffer_ptr \<Rightarrow> bool" where
  "refers_to v (Ptr cc idx) = (cc < length v \<and> idx < length (v ! cc))"
| "refers_to v _ = False"

subsection \<open>Uplink MAC PDU processing\<close>

text \<open>
  The parser of the MAC PDU (\<^verbatim>\<open>sch_pdu::parse_packet\<close>) belongs to the common library:
  a received PDU is the list of its parsed subheaders, in the order in which
  \<^verbatim>\<open>mac_msg_ul.next()\<close> visits them. A control element carries what its accessors
  return: \<^verbatim>\<open>(int)get_phr()\<close>, \<^verbatim>\<open>get_c_rnti()\<close>, and for a BSR the value returned by
  \<^verbatim>\<open>get_bsr\<close> together with the array \<^verbatim>\<open>buff_size_bytes\<close> it fills.
\<close>

datatype ul_sch_ce =
    PHR_REPORT int
  | CRNTI u16
  | TRUNC_BSR int "u32 list"
  | SHORT_BSR int "u32 list"
  | LONG_BSR "u32 list"
  | PADDING
  | OTHER_CE

datatype sch_subh = SDU (sdu_lcid: u32) (sdu_payload: "u8 list") | CE ul_sch_ce

fun is_sdu :: "sch_subh \<Rightarrow> bool" where
  "is_sdu (SDU l p) = True"
| "is_sdu (CE c) = False"

text \<open>\<^verbatim>\<open>get_payload_size()\<close> is a \<^verbatim>\<open>uint32_t\<close>.\<close>

definition get_payload_size :: "u8 list \<Rightarrow> u32" where
  "get_payload_size p = word_of_nat (length p)"

text \<open>Calls into the other layers and error logs, in the order in which they are made.\<close>

datatype mac_effect =
    Rlc_write_pdu u16 u32 "u8 list"
  | Rrc_set_activity_user u16
  | Rrc_upd_user u16 u16
  | Sched_ul_phr u16 int
  | Metrics_phr int
  | Sched_ul_bsr u16 int u32
  | Sched_ul_buffer_add u16 u32 u32
  | Log_error string

text \<open>The part of the user object that PDU processing reads and writes: the RNTI, the
  eight bytes of the \<^verbatim>\<open>uint64_t conres_id\<close> as they lie in memory, and the calls made.\<close>

record ue_rx =
  rnti :: u16
  conres_id :: "u8 list"
  trace :: "mac_effect list"

definition emit :: "mac_effect list \<Rightarrow> ue_rx \<Rightarrow> ue_rx" where
  "emit es st = st\<lparr>trace := trace st @ es\<rparr>"

text \<open>\<^verbatim>\<open>sched_interface::MAX_LC_GROUP\<close>: the size of the arrays
  \<^verbatim>\<open>buff_size_idx[4]\<close> and \<^verbatim>\<open>buff_size_bytes[4]\<close> that \<^verbatim>\<open>process_ce\<close> declares.\<close>

definition MAX_LC_GROUP :: nat where
  "MAX_LC_GROUP = 4"

text \<open>
  \<^verbatim>\<open>ue::process_ce\<close>. \<open>ue_exists\<close> is the answer of \<^verbatim>\<open>sched->ue_exists\<close>.
  The result is \<^verbatim>\<open>is_bsr\<close> and the new state.
\<close>

fun process_ce :: "(u16 \<Rightarrow> bool) \<Rightarrow> ul_sch_ce \<Rightarrow> ue_rx \<Rightarrow> bool \<times> ue_rx" where
  "process_ce ue_exists (PHR_REPORT phr) st =
     (False, emit [Sched_ul_phr (rnti st) phr, Metrics_phr phr] st)"
| "process_ce ue_exists (CRNTI old_rnti) st =
     (if ue_exists old_rnti
      then (False, (emit [Rrc_upd_user (rnti st) old_rnti] st)\<lparr>rnti := old_rnti\<rparr>)
      else (False, emit [Log_error ''Updating user C-RNTI: rnti already released''] st))"
| "process_ce ue_exists (TRUNC_BSR idx buff_size_bytes) st =
     (if idx = -1 then (False, emit [Log_error ''Invalid Index Passed to lc groups''] st)
      else (True, emit [Sched_ul_bsr (rnti st) idx (buff_size_bytes ! nat idx)] st))"
| "process_ce ue_exists (SHORT_BSR idx buff_size_bytes) st =
     (if idx = -1 then (False, emit [Log_error ''Invalid Index Passed to lc groups''] st)
      else (True, emit [Sched_ul_bsr (rnti st) idx (buff_size_bytes ! nat idx)] st))"
| "process_ce ue_exists (LONG_BSR buff_size_bytes) st =
     (True, emit (map (\<lambda>idx. Sched_ul_bsr (rnti st) (int idx) (buff_size_bytes ! idx))
                   [0..<MAX_LC_GROUP]) st)"
| "process_ce ue_exists PADDING st = (False, st)"
| "process_ce ue_exists OTHER_CE st = (False, emit [Log_error ''CE: Invalid lcid''] st)"

text \<open>The checksum of an LCID-0 payload: a \<^verbatim>\<open>uint32_t\<close> sum of its bytes.\<close>

definition payload_sum :: "u8 list \<Rightarrow> u32" where
  "payload_sum x = fold (\<lambda>b sum. sum + ucast b) x 0"

text \<open>\<^verbatim>\<open>MAC_CE_CONTRES_LEN\<close>, the length of the contention-resolution identity.\<close>

definition MAC_CE_CONTRES_LEN :: nat where
  "MAC_CE_CONTRES_LEN = 6"

text \<open>The copy loop \<^verbatim>\<open>ue_cri_ptr[nbytes - i - 1] = pkt_ptr[i]\<close>.\<close>

definition save_conres :: "u8 list \<Rightarrow> u8 list \<Rightarrow> u8 list" where
  "save_conres pkt cri =
     fold (\<lambda>i c. c[MAC_CE_CONTRES_LEN - i - 1 := pkt ! i]) [0..<MAC_CE_CONTRES_LEN] cri"

text \<open>
  The loop variables of the first pass of \<^verbatim>\<open>ue::process_pdu\<close>:
  \<^verbatim>\<open>lcid_most_data\<close> and \<^verbatim>\<open>most_data\<close> (an \<^verbatim>\<open>int\<close>, compared with the payload
  size cast to \<^verbatim>\<open>int\<close>).
\<close>

record sdu_pass =
  ue :: ue_rx
  lcid_most_data :: u32
  most_data :: int

definition route_pdu :: "u32 \<Rightarrow> u8 list \<Rightarrow> bool" where
  "route_pdu lcid x = (\<not> (lcid = 0 \<and> payload_sum x = 0))"

text \<open>The body of the first \<^verbatim>\<open>while (mac_msg_ul.next())\<close> loop.\<close>

fun sdu_step :: "sch_subh \<Rightarrow> sdu_pass \<Rightarrow> sdu_pass" where
  "sdu_step (CE c) s = s"
| "sdu_step (SDU lcid x) s =
     (let st0 = ue s;
          st1 = (if route_pdu lcid x then emit [Rlc_write_pdu (rnti st0) lcid x] st0 else st0);
          st2 = (if get_payload_size x > 64 then emit [Rrc_set_activity_user (rnti st1)] st1
                 else st1);
          s3 = (if sint (get_payload_size x) > most_data s
                then s\<lparr>most_data := sint (get_payload_size x), lcid_most_data := lcid\<rparr>
                else s);
          st4 = (if lcid = 0 \<and> route_pdu lcid x
                 then (if get_payload_size x \<ge> word_of_nat MAC_CE_CONTRES_LEN
                       then st2\<lparr>conres_id := save_conres x (conres_id st2)\<rparr>
                       else emit [Log_error ''Received CCCH UL message of invalid size''] st2)
                 else st2)
      in s3\<lparr>ue := st4\<rparr>)"

text \<open>The body of the second loop: control elements only, \<^verbatim>\<open>bsr_received |= process_ce\<close>.\<close>

fun ce_step :: "(u16 \<Rightarrow> bool) \<Rightarrow> sch_subh \<Rightarrow> bool \<times> ue_rx \<Rightarrow> bool \<times> ue_rx" where
  "ce_step ue_exists (SDU lcid x) s = s"
| "ce_step ue_exists (CE c) (bsr_received, st) =
     (let (is_bsr, st') = process_ce ue_exists c st in (bsr_received \<or> is_bsr, st'))"

text \<open>\<^verbatim>\<open>ue::process_pdu\<close>, from the first loop on.\<close>

definition process_pdu :: "(u16 \<Rightarrow> bool) \<Rightarrow> sch_subh list \<Rightarrow> ue_rx \<Rightarrow> ue_rx" where
  "process_pdu ue_exists pdu st =
     (let s1 = fold sdu_step pdu \<lparr>ue = st, lcid_most_data = 0, most_data = -99\<rparr>;
          (bsr_received, st2) = fold (ce_step ue_exists) pdu (False, ue s1)
      in if \<not> bsr_received \<and> lcid_most_data s1 > 2
         then emit [Sched_ul_buffer_add (rnti st2) (lcid_most_data s1) 256] st2
         else st2)"

text \<open>The scheduler's answer to \<^verbatim>\<open>ue_exists\<close> when it knows exactly the listed RNTIs.\<close>

definition ue_db :: "u16 list \<Rightarrow> u16 \<Rightarrow> bool" where
  "ue_db rntis r = (r \<in> set rntis)"

subsection \<open>Vocabulary for the statements about PDU processing\<close>

definition new_effects :: "ue_rx \<Rightarrow> ue_rx \<Rightarrow> mac_effect list" where
  "new_effects st st' = drop (length (trace st)) (trace st')"

fun is_rlc_write :: "mac_effect \<Rightarrow> bool" where
  "is_rlc_write (Rlc_write_pdu r l x) = True"
| "is_rlc_write _ = False"

fun is_buffer_add :: "mac_effect \<Rightarrow> bool" where
  "is_buffer_add (Sched_ul_buffer_add r l n) = True"
| "is_buffer_add _ = False"

definition all_zero :: "u8 list \<Rightarrow> bool" where
  "all_zero x = (\<forall>b \<in> set x. b = 0)"

text \<open>An SDU subheader is delivered unless its LCID is 0 and all its bytes are zero.\<close>

fun delivered :: "sch_subh \<Rightarrow> bool" where
  "delivered (SDU lcid x) = (\<not> (lcid = 0 \<and> all_zero x))"
| "delivered (CE c) = False"

text \<open>A delivered LCID-0 SDU of at least six bytes.\<close>

fun carries_conres :: "sch_subh \<Rightarrow> bool" where
  "carries_conres (SDU lcid x) = (lcid = 0 \<and> \<not> all_zero x \<and> MAC_CE_CONTRES_LEN \<le> length x)"
| "carries_conres (CE c) = False"

text \<open>A BSR control element that \<^verbatim>\<open>process_ce\<close> reports as a BSR.\<close>

fun valid_bsr :: "sch_subh \<Rightarrow> bool" where
  "valid_bsr (CE (LONG_BSR bs)) = True"
| "valid_bsr (CE (SHORT_BSR idx bs)) = (idx \<noteq> -1)"
| "valid_bsr (CE (TRUNC_BSR idx bs)) = (idx \<noteq> -1)"
| "valid_bsr _ = False"

text \<open>Subheader \<open>i\<close> is the first SDU of the PDU with the largest payload.\<close>

definition first_largest :: "sch_subh list \<Rightarrow> nat \<Rightarrow> bool" where
  "first_largest pdu i =
     (i < length pdu \<and> is_sdu (pdu ! i) \<and>
      (\<forall>j < length pdu. is_sdu (pdu ! j) \<longrightarrow>
           length (sdu_payload (pdu ! j)) \<le> length (sdu_payload (pdu ! i))) \<and>
      (\<forall>j < i. is_sdu (pdu ! j) \<longrightarrow>
           length (sdu_payload (pdu ! j)) < length (sdu_payload (pdu ! i))))"

text \<open>Payloads are shorter than \<open>2 ^ 24\<close> bytes: the byte sum then stays below \<open>2 ^ 32\<close> and the
  size fits an \<^verbatim>\<open>int\<close>. (A transport block is a few thousand bytes.)\<close>

definition sdu_sizes_ok :: "sch_subh list \<Rightarrow> bool" where
  "sdu_sizes_ok pdu = (\<forall>sh \<in> set pdu. is_sdu sh \<longrightarrow> length (sdu_payload sh) < 2 ^ 24)"

section \<open>RRC user object (srsenb/src/stack/rrc/rrc.cc)\<close>

subsection \<open>PUCCH resource grids for SR and CQI\<close>

datatype srslte_cp_t = SRSLTE_CP_NORM | SRSLTE_CP_EXT

datatype delta_pucch_shift_e = ds1 | ds2 | ds3

fun to_number :: "delta_pucch_shift_e \<Rightarrow> u32" where
  "to_number ds1 = 1"
| "to_number ds2 = 2"
| "to_number ds3 = 3"

text \<open>
  The fields of \<^verbatim>\<open>cfg.sr_cfg\<close> and \<^verbatim>\<open>cfg.cqi_cfg\<close> that the allocators read
  (\<^verbatim>\<open>period\<close>, \<^verbatim>\<open>nof_prb\<close>, \<^verbatim>\<open>nof_subframes\<close>, \<^verbatim>\<open>sf_mapping\<close>).
\<close>

record rrc_cfg_pucch =
  cfg_period :: u32
  cfg_nof_prb :: u32
  cfg_nof_subframes :: u32
  cfg_sf_mapping :: "u32 list"

datatype rrc_log_msg = Rrc_error string | Rrc_warning string | Rrc_info string

text \<open>
  The part of \<^verbatim>\<open>rrc\<close> (the \<^verbatim>\<open>parent\<close> of a user) that the allocators use: the cyclic
  prefix, \<^verbatim>\<open>delta_pucch_shift\<close> and \<^verbatim>\<open>ncs_an\<close> of SIB2, both configurations, the
  two grids \<^verbatim>\<open>sr_sched.nof_users\<close> and \<^verbatim>\<open>cqi_sched.nof_users\<close> (arrays of
  \<^verbatim>\<open>uint32_t\<close>, one row per PRB slot), and the log.
\<close>

record rrc_parent =
  cell_cp :: srslte_cp_t
  delta_pucch_shift :: delta_pucch_shift_e
  ncs_an :: u8
  sr_cfg :: rrc_cfg_pucch
  cqi_cfg :: rrc_cfg_pucch
  sr_sched :: "u32 list list"
  cqi_sched :: "u32 list list"
  rrc_log :: "rrc_log_msg list"

text \<open>The resource handles of one \<^verbatim>\<open>rrc::ue\<close>.\<close>

record ue_pucch =
  sr_allocated :: bool
  sr_sched_prb_idx :: nat
  sr_sched_sf_idx :: nat
  sr_I :: u32
  sr_N_pucch :: u32
  cqi_allocated :: bool
  cqi_sched_prb_idx :: nat
  cqi_sched_sf_idx :: nat
  cqi_idx :: u32
  cqi_pucch :: u32

definition log_rrc :: "rrc_log_msg \<Rightarrow> rrc_parent \<Rightarrow> rrc_parent" where
  "log_rrc m p = p\<lparr>rrc_log := rrc_log p @ [m]\<rparr>"

definition grid_upd :: "u32 list list \<Rightarrow> nat \<Rightarrow> nat \<Rightarrow> u32 \<Rightarrow> u32 list list" where
  "grid_upd g i j v = g[i := (g ! i)[j := v]]"

text \<open>\<^verbatim>\<open>max_users = 12 * c / delta_pucch_shift\<close> with \<^verbatim>\<open>c\<close> 3 for the normal cyclic
  prefix and 2 otherwise.\<close>

definition max_users_of :: "rrc_parent \<Rightarrow> u32" where
  "max_users_of p =
     12 * (if cell_cp p = SRSLTE_CP_NORM then 3 else 2) div to_number (delta_pucch_shift p)"

text \<open>
  The search for the least used slot: two nested loops over \<^verbatim>\<open>i < nof_prb\<close> and
  \<^verbatim>\<open>j < nof_subframes\<close>, started with \<^verbatim>\<open>i_min = 0, j_min = 0\<close> and
  \<^verbatim>\<open>min_users = UINT32_MAX\<close>.
\<close>

definition scan_cell :: "u32 list list \<Rightarrow> nat \<Rightarrow> nat \<Rightarrow> nat \<times> nat \<times> u32 \<Rightarrow> nat \<times> nat \<times> u32" where
  "scan_cell g i j st =
     (case st of (i_min, j_min, min_users) \<Rightarrow>
        if g ! i ! j < min_users then (i, j, g ! i ! j) else (i_min, j_min, min_users))"

definition find_least_users :: "u32 list list \<Rightarrow> u32 \<Rightarrow> u32 \<Rightarrow> nat \<times> nat \<times> u32" where
  "find_least_users g nprb nsf =
     fold (\<lambda>i. fold (scan_cell g i) [0..<unat nsf]) [0..<unat nprb] (0, 0, 4294967295)"

text \<open>
  \<^verbatim>\<open>rrc::ue::sr_allocate\<close>. The result is the error (return value -1) or the pair
  \<^verbatim>\<open>(*I_sr, *N_pucch_sr)\<close> (return value 0), with the new state.
\<close>

definition sr_allocate ::
  "u32 \<Rightarrow> rrc_parent \<times> ue_pucch \<Rightarrow> (string + u8 \<times> u16) \<times> rrc_parent \<times> ue_pucch" where
  "sr_allocate period s =
     (case s of (p, u) \<Rightarrow>
      let max_users = max_users_of p;
          g = sr_sched p;
          (i_min, j_min, min_users) =
             find_least_users g (cfg_nof_prb (sr_cfg p)) (cfg_nof_subframes (sr_cfg p))
      in if g ! i_min ! j_min > max_users
         then (Inl ''Not enough PUCCH resources to allocate Scheduling Request'',
               log_rrc (Rrc_error ''Not enough PUCCH resources to allocate Scheduling Request'') p, u)
         else if period \<noteq> 5 \<and> period \<noteq> 10 \<and> period \<noteq> 20 \<and> period \<noteq> 40 \<and> period \<noteq> 80
         then (Inl ''Invalid SchedulingRequest period'',
               log_rrc (Rrc_error ''Invalid SchedulingRequest period'') p, u)
         else if \<not> cfg_sf_mapping (sr_cfg p) ! j_min < period
         then (Inl ''Allocating SR: invalid sf_idx'',
               log_rrc (Rrc_error ''Allocating SR: invalid sf_idx'') p, u)
         else
           let I_sr = (ucast (period - 5 + cfg_sf_mapping (sr_cfg p) ! j_min) :: u8);
               N0 = (ucast (word_of_nat i_min * max_users + g ! i_min ! j_min) :: u16);
               N_pucch_sr = (if ncs_an p \<noteq> 0 then N0 + ucast (ncs_an p) else N0)
           in (Inr (I_sr, N_pucch_sr),
               log_rrc (Rrc_info ''Allocated SR resources'')
                 (p\<lparr>sr_sched := grid_upd g i_min j_min (g ! i_min ! j_min + 1)\<rparr>),
               u\<lparr>sr_allocated := True, sr_sched_prb_idx := i_min, sr_sched_sf_idx := j_min,
                 sr_I := ucast I_sr, sr_N_pucch := ucast N_pucch_sr\<rparr>))"

text \<open>\<^verbatim>\<open>rrc::ue::sr_free\<close> (it always returns 0).\<close>

definition sr_free :: "rrc_parent \<times> ue_pucch \<Rightarrow> rrc_parent \<times> ue_pucch" where
  "sr_free s =
     (case s of (p, u) \<Rightarrow>
      if sr_allocated u
      then (log_rrc (Rrc_info ''Deallocated SR resources'')
              (if sr_sched p ! sr_sched_prb_idx u ! sr_sched_sf_idx u > 0
               then p\<lparr>sr_sched := grid_upd (sr_sched p) (sr_sched_prb_idx u) (sr_sched_sf_idx u)
                                     (sr_sched p ! sr_sched_prb_idx u ! sr_sched_sf_idx u - 1)\<rparr>
               else log_rrc (Rrc_warning ''Removing SR resources: no users in time-frequency slot'') p),
            u)
      else (p, u))"

text \<open>\<^verbatim>\<open>rrc::ue::cqi_allocate\<close>: the same search on the CQI grid; the result is
  \<^verbatim>\<open>(*pmi_idx, *n_pucch)\<close>.\<close>

definition cqi_allocate ::
  "u32 \<Rightarrow> rrc_parent \<times> ue_pucch \<Rightarrow> (string + u16 \<times> u16) \<times> rrc_parent \<times> ue_pucch" where
  "cqi_allocate period s =
     (case s of (p, u) \<Rightarrow>
      let max_users = max_users_of p;
          g = cqi_sched p;
          (i_min, j_min, min_users) =
             find_least_users g (cfg_nof_prb (cqi_cfg p)) (cfg_nof_subframes (cqi_cfg p));
          sf = cfg_sf_mapping (cqi_cfg p) ! j_min
      in if g ! i_min ! j_min > max_users
         then (Inl ''Not enough PUCCH resources to allocate Scheduling Request'',
               log_rrc (Rrc_error ''Not enough PUCCH resources to allocate Scheduling Request'') p, u)
         else if period \<noteq> 2 \<and> period \<noteq> 5 \<and> period \<noteq> 10 \<and> period \<noteq> 20 \<and> period \<noteq> 40 \<and>
                 period \<noteq> 80 \<and> period \<noteq> 160 \<and> period \<noteq> 32 \<and> period \<noteq> 64 \<and> period \<noteq> 128
         then (Inl ''Invalid CQI Report period'',
               log_rrc (Rrc_error ''Invalid CQI Report period'') p, u)
         else if \<not> sf < period
         then (Inl ''Allocating SR: invalid sf_idx'',
               log_rrc (Rrc_error ''Allocating SR: invalid sf_idx'') p, u)
         else
           let pmi_idx = (ucast
                 (if period \<noteq> 32 \<and> period \<noteq> 64 \<and> period \<noteq> 128
                  then (if period > 2 then period - 3 + sf else sf)
                  else (if period = 32 then 318 + sf
                        else if period = 64 then 350 + sf else 414 + sf)) :: u16);
               n0 = (ucast (word_of_nat i_min * max_users + g ! i_min ! j_min) :: u16);
               n_pucch = (if ncs_an p \<noteq> 0 then n0 + ucast (ncs_an p) else n0)
           in (Inr (pmi_idx, n_pucch),
               log_rrc (Rrc_info ''Allocated CQI resources'')
                 (p\<lparr>cqi_sched := grid_upd g i_min j_min (g ! i_min ! j_min + 1)\<rparr>),
               u\<lparr>cqi_allocated := True, cqi_sched_prb_idx := i_min, cqi_sched_sf_idx := j_min,
                 cqi_idx := ucast pmi_idx, cqi_pucch := ucast n_pucch\<rparr>))"

text \<open>\<^verbatim>\<open>rrc::ue::cqi_free\<close>.\<close>

definition cqi_free :: "rrc_parent \<times> ue_pucch \<Rightarrow> rrc_parent \<times> ue_pucch" where
  "cqi_free s =
     (case s of (p, u) \<Rightarrow>
      if cqi_allocated u
      then (log_rrc (Rrc_info ''Deallocated CQI resources'')
              (if cqi_sched p ! cqi_sched_prb_idx u ! cqi_sched_sf_idx u > 0
               then p\<lparr>cqi_sched := grid_upd (cqi_sched p) (cqi_sched_prb_idx u) (cqi_sched_sf_idx u)
                                     (cqi_sched p ! cqi_sched_prb_idx u ! cqi_sched_sf_idx u - 1)\<rparr>
               else log_rrc (Rrc_warning ''Removing CQI resources: no users in time-frequency slot'') p),
            u)
      else (p, u))"

subsection \<open>Vocabulary for the statements about the grids\<close>

text \<open>
  The arrays are large enough for the configured loop bounds and have an element 0 (the
  source reads \<^verbatim>\<open>nof_users[0][0]\<close> and \<^verbatim>\<open>sf_mapping[0]\<close> even when a loop bound is
  zero); a cell has at most 100 PRBs.
\<close>

definition grid_ok :: "rrc_cfg_pucch \<Rightarrow> u32 list list \<Rightarrow> bool" where
  "grid_ok cfg g =
     (unat (cfg_nof_prb cfg) \<le> 100 \<and> g \<noteq> [] \<and> unat (cfg_nof_prb cfg) \<le> length g \<and>
      (\<forall>row \<in> set g. row \<noteq> [] \<and> unat (cfg_nof_subframes cfg) \<le> length row) \<and>
      cfg_sf_mapping cfg \<noteq> [] \<and> unat (cfg_nof_subframes cfg) \<le> length (cfg_sf_mapping cfg))"

text \<open>The invariant of the search loops over the set \<open>P\<close> of cells already visited.\<close>

definition least_inv :: "u32 list list \<Rightarrow> (nat \<times> nat) set \<Rightarrow> nat \<times> nat \<times> u32 \<Rightarrow> bool" where
  "least_inv g P st =
     (case st of (i_min, j_min, min_users) \<Rightarrow>
        (\<forall>(a, b) \<in> P. min_users \<le> g ! a ! b) \<and> g ! i_min ! j_min \<le> min_users \<and>
        ((i_min, j_min) \<in> P \<or> (i_min, j_min) = (0, 0)))"

text \<open>A handle, when held, points into the grid.\<close>

definition sr_handle_ok :: "rrc_parent \<times> ue_pucch \<Rightarrow> bool" where
  "sr_handle_ok s =
     (case s of (p, u) \<Rightarrow>
        sr_allocated u \<longrightarrow> sr_sched_prb_idx u < length (sr_sched p) \<and>
          sr_sched_sf_idx u < length (sr_sched p ! sr_sched_prb_idx u))"

definition cqi_handle_ok :: "rrc_parent \<times> ue_pucch \<Rightarrow> bool" where
  "cqi_handle_ok s =
     (case s of (p, u) \<Rightarrow>
        cqi_allocated u \<longrightarrow> cqi_sched_prb_idx u < length (cqi_sched p) \<and>
          cqi_sched_sf_idx u < length (cqi_sched p ! cqi_sched_prb_idx u))"

text \<open>A small cell for worked examples: normal cyclic prefix, \<^verbatim>\<open>delta_pucch_shift\<close> 1,
  the same slot layout for SR and CQI, and a user without handles.\<close>

definition small_cell :: "u8 \<Rightarrow> u32 \<Rightarrow> u32 \<Rightarrow> u32 list \<Rightarrow> u32 list list \<Rightarrow> rrc_parent" where
  "small_cell ncs nprb nsf sfm g =
     \<lparr>cell_cp = SRSLTE_CP_NORM, delta_pucch_shift = ds1, ncs_an = ncs,
      sr_cfg = \<lparr>cfg_period = 20, cfg_nof_prb = nprb, cfg_nof_subframes = nsf, cfg_sf_mapping = sfm\<rparr>,
      cqi_cfg = \<lparr>cfg_period = 40, cfg_nof_prb = nprb, cfg_nof_subframes = nsf, cfg_sf_mapping = sfm\<rparr>,
      sr_sched = g, cqi_sched = g, rrc_log = []\<rparr>"

definition no_handles :: ue_pucch where
  "no_handles =
     \<lparr>sr_allocated = False, sr_sched_prb_idx = 0, sr_sched_sf_idx = 0, sr_I = 0, sr_N_pucch = 0,
      cqi_allocated = False, cqi_sched_prb_idx = 0, cqi_sched_sf_idx = 0, cqi_idx = 0, cqi_pucch = 0\<rparr>"

subsection \<open>Security algorithm selection\<close>

text \<open>
  The enumerations \<^verbatim>\<open>CIPHERING_ALGORITHM_ID_ENUM\<close> and
  \<^verbatim>\<open>INTEGRITY_ALGORITHM_ID_ENUM\<close> are declared in the common security header. Their
  enumerators number the algorithms 0 to 3 in order, followed by \<^verbatim>\<open>N_ITEMS\<close>; the
  source subtracts the enumerator from the length of the capability bitmap.
\<close>

datatype CIPHERING_ALGORITHM_ID_ENUM =
    CIPHERING_ALGORITHM_ID_EEA0
  | CIPHERING_ALGORITHM_ID_128_EEA1
  | CIPHERING_ALGORITHM_ID_128_EEA2
  | CIPHERING_ALGORITHM_ID_128_EEA3
  | CIPHERING_ALGORITHM_ID_N_ITEMS

datatype INTEGRITY_ALGORITHM_ID_ENUM =
    INTEGRITY_ALGORITHM_ID_EIA0
  | INTEGRITY_ALGORITHM_ID_128_EIA1
  | INTEGRITY_ALGORITHM_ID_128_EIA2
  | INTEGRITY_ALGORITHM_ID_128_EIA3
  | INTEGRITY_ALGORITHM_ID_N_ITEMS

fun cipher_id :: "CIPHERING_ALGORITHM_ID_ENUM \<Rightarrow> nat" where
  "cipher_id CIPHERING_ALGORITHM_ID_EEA0 = 0"
| "cipher_id CIPHERING_ALGORITHM_ID_128_EEA1 = 1"
| "cipher_id CIPHERING_ALGORITHM_ID_128_EEA2 = 2"
| "cipher_id CIPHERING_ALGORITHM_ID_128_EEA3 = 3"
| "cipher_id CIPHERING_ALGORITHM_ID_N_ITEMS = 4"

fun integ_id :: "INTEGRITY_ALGORITHM_ID_ENUM \<Rightarrow> nat" where
  "integ_id INTEGRITY_ALGORITHM_ID_EIA0 = 0"
| "integ_id INTEGRITY_ALGORITHM_ID_128_EIA1 = 1"
| "integ_id INTEGRITY_ALGORITHM_ID_128_EIA2 = 2"
| "integ_id INTEGRITY_ALGORITHM_ID_128_EIA3 = 3"
| "integ_id INTEGRITY_ALGORITHM_ID_N_ITEMS = 4"

text \<open>
  A capability bitmap of the S1AP \<^verbatim>\<open>UESecurityCapabilities\<close> is a bit string of 16
  bits; \<^verbatim>\<open>v.get(n)\<close> reads bit \<open>n\<close> and \<^verbatim>\<open>v.length()\<close> is 16.
\<close>

definition bitstring_length :: "u16 \<Rightarrow> nat" where
  "bitstring_length v = 16"

definition bitstring_get :: "u16 \<Rightarrow> nat \<Rightarrow> bool" where
  "bitstring_get v n = bit v n"

text \<open>What \<^verbatim>\<open>select_security_algorithms\<close> reads and writes: the two preference lists of
  the configuration, the two capability bitmaps of the user, and the selected algorithms.\<close>

record ue_security =
  eea_preference_list :: "CIPHERING_ALGORITHM_ID_ENUM list"
  eia_preference_list :: "INTEGRITY_ALGORITHM_ID_ENUM list"
  encryption_algorithms :: u16
  integrity_protection_algorithms :: u16
  cipher_algo :: CIPHERING_ALGORITHM_ID_ENUM
  integ_algo :: INTEGRITY_ALGORITHM_ID_ENUM

text \<open>The \<^verbatim>\<open>switch\<close> of the first loop: the new values of \<^verbatim>\<open>cipher_algo\<close> and
  \<^verbatim>\<open>enc_algo_found\<close>.\<close>

fun cipher_switch ::
  "u16 \<Rightarrow> CIPHERING_ALGORITHM_ID_ENUM \<Rightarrow> CIPHERING_ALGORITHM_ID_ENUM \<times> bool \<Rightarrow>
   CIPHERING_ALGORITHM_ID_ENUM \<times> bool" where
  "cipher_switch v CIPHERING_ALGORITHM_ID_EEA0 (algo, found) = (CIPHERING_ALGORITHM_ID_EEA0, True)"
| "cipher_switch v CIPHERING_ALGORITHM_ID_128_EEA1 (algo, found) =
     (if bitstring_get v (bitstring_length v - cipher_id CIPHERING_ALGORITHM_ID_128_EEA1)
      then (CIPHERING_ALGORITHM_ID_128_EEA1, True) else (algo, found))"
| "cipher_switch v CIPHERING_ALGORITHM_ID_128_EEA2 (algo, found) =
     (if bitstring_get v (bitstring_length v - cipher_id CIPHERING_ALGORITHM_ID_128_EEA2)
      then (CIPHERING_ALGORITHM_ID_128_EEA2, True) else (algo, found))"
| "cipher_switch v CIPHERING_ALGORITHM_ID_128_EEA3 (algo, found) =
     (if bitstring_get v (bitstring_length v - cipher_id CIPHERING_ALGORITHM_ID_128_EEA3)
      then (CIPHERING_ALGORITHM_ID_128_EEA3, True) else (algo, found))"
| "cipher_switch v CIPHERING_ALGORITHM_ID_N_ITEMS (algo, found) = (algo, False)"

text \<open>The first \<^verbatim>\<open>for\<close> loop, left by \<^verbatim>\<open>break\<close> as soon as an algorithm is found.\<close>

fun cipher_loop ::
  "u16 \<Rightarrow> CIPHERING_ALGORITHM_ID_ENUM list \<Rightarrow> CIPHERING_ALGORITHM_ID_ENUM \<times> bool \<Rightarrow>
   CIPHERING_ALGORITHM_ID_ENUM \<times> bool" where
  "cipher_loop v [] st = st"
| "cipher_loop v (cipher_item # rest) st =
     (let st' = cipher_switch v cipher_item st
      in if snd st' then st' else cipher_loop v rest st')"

fun integ_switch ::
  "u16 \<Rightarrow> INTEGRITY_ALGORITHM_ID_ENUM \<Rightarrow> INTEGRITY_ALGORITHM_ID_ENUM \<times> bool \<Rightarrow>
   INTEGRITY_ALGORITHM_ID_ENUM \<times> bool" where
  "integ_switch v INTEGRITY_ALGORITHM_ID_EIA0 (algo, found) = (algo, found)"
| "integ_switch v INTEGRITY_ALGORITHM_ID_128_EIA1 (algo, found) =
     (if bitstring_get v (bitstring_length v - integ_id INTEGRITY_ALGORITHM_ID_128_EIA1)
      then (INTEGRITY_ALGORITHM_ID_128_EIA1, True) else (algo, found))"
| "integ_switch v INTEGRITY_ALGORITHM_ID_128_EIA2 (algo, found) =
     (if bitstring_get v (bitstring_length v - integ_id INTEGRITY_ALGORITHM_ID_128_EIA2)
      then (INTEGRITY_ALGORITHM_ID_128_EIA2, True) else (algo, found))"
| "integ_switch v INTEGRITY_ALGORITHM_ID_128_EIA3 (algo, found) =
     (if bitstring_get v (bitstring_length v - integ_id INTEGRITY_ALGORITHM_ID_128_EIA3)
      then (INTEGRITY_ALGORITHM_ID_128_EIA3, True) else (algo, found))"
| "integ_switch v INTEGRITY_ALGORITHM_ID_N_ITEMS (algo, found) = (algo, False)"

fun integ_loop ::
  "u16 \<Rightarrow> INTEGRITY_ALGORITHM_ID_ENUM list \<Rightarrow> INTEGRITY_ALGORITHM_ID_ENUM \<times> bool \<Rightarrow>
   INTEGRITY_ALGORITHM_ID_ENUM \<times> bool" where
  "integ_loop v [] st = st"
| "integ_loop v (eia_enum # rest) st =
     (let st' = integ_switch v eia_enum st
      in if snd st' then st' else integ_loop v rest st')"

text \<open>\<^verbatim>\<open>rrc::ue::select_security_algorithms\<close>: the returned flag and the new state.\<close>

definition select_security_algorithms :: "ue_security \<Rightarrow> bool \<times> ue_security" where
  "select_security_algorithms s =
     (let (c, enc_algo_found) =
            cipher_loop (encryption_algorithms s) (eea_preference_list s) (cipher_algo s, False);
          (i, integ_algo_found) =
            integ_loop (integrity_protection_algorithms s) (eia_preference_list s)
              (integ_algo s, False);
          s' = s\<lparr>cipher_algo := c, integ_algo := i\<rparr>
      in if \<not> integ_algo_found \<or> \<not> enc_algo_found then (False, s') else (True, s'))"

text \<open>
  The user supports a ciphering algorithm when it is EEA0 or its bit is set (EEA1 is the
  first bit, bit 15; EEA2 bit 14; EEA3 bit 13), and an integrity algorithm when it is not
  EIA0 and its bit is set.
\<close>

fun eea_supported :: "u16 \<Rightarrow> CIPHERING_ALGORITHM_ID_ENUM \<Rightarrow> bool" where
  "eea_supported v CIPHERING_ALGORITHM_ID_EEA0 = True"
| "eea_supported v CIPHERING_ALGORITHM_ID_128_EEA1 = bit v 15"
| "eea_supported v CIPHERING_ALGORITHM_ID_128_EEA2 = bit v 14"
| "eea_supported v CIPHERING_ALGORITHM_ID_128_EEA3 = bit v 13"
| "eea_supported v CIPHERING_ALGORITHM_ID_N_ITEMS = False"

fun eia_supported :: "u16 \<Rightarrow> INTEGRITY_ALGORITHM_ID_ENUM \<Rightarrow> bool" where
  "eia_supported v INTEGRITY_ALGORITHM_ID_EIA0 = False"
| "eia_supported v INTEGRITY_ALGORITHM_ID_128_EIA1 = bit v 15"
| "eia_supported v INTEGRITY_ALGORITHM_ID_128_EIA2 = bit v 14"
| "eia_supported v INTEGRITY_ALGORITHM_ID_128_EIA3 = bit v 13"
| "eia_supported v INTEGRITY_ALGORITHM_ID_N_ITEMS = False"

subsection \<open>Transaction identifier\<close>

text \<open>
  Downlink messages that carry an \<^verbatim>\<open>rrc_transaction_id\<close>, and the connection reject,
  which carries none.
\<close>

datatype dl_msg_type =
    RRC_CONN_SETUP | RRC_CONN_REEST | RRC_CONN_RELEASE | RRC_CONN_RECFG
  | SECURITY_MODE_CMD | UE_CAP_ENQUIRY | RRC_CONN_REJECT

text \<open>The counter \<^verbatim>\<open>transaction_id\<close> of the user (a \<^verbatim>\<open>uint8_t\<close>) and the messages
  handed to \<^verbatim>\<open>send_dl_ccch\<close> or \<^verbatim>\<open>send_dl_dcch\<close>, with their transaction id.\<close>

record ue_tx =
  transaction_id :: u8
  tx :: "(dl_msg_type \<times> u8 option) list"










text \<open>
  A received UL-DCCH PDU: one that does not unpack, or the type of the unpacked message
  (for \<^verbatim>\<open>ue_cap_info\<close> with the result of \<^verbatim>\<open>handle_ue_cap_info\<close>, for
  \<^verbatim>\<open>security_mode_complete\<close> and \<^verbatim>\<open>ue_cap_info\<close> with whether the reconfiguration
  that follows reaches its send call).
\<close>

datatype ul_dcch_msg =
    Unpack_failed
  | Rrc_conn_setup_complete
  | Ul_info_transfer
  | Rrc_conn_recfg_complete
  | Security_mode_complete bool
  | Security_mode_fail
  | Ue_cap_info bool bool
  | Meas_report
  | Other_ul_dcch







section \<open>Measurement configuration diff\<close>

text \<open>
  Modelled from the spec: \<^verbatim>\<open>var_meas_cfg_t\<close> and its \<^verbatim>\<open>compute_diff_meas_cfg\<close>
  (rrc_mobility.cc) are missing from the sources covered here, only the test
  \<^verbatim>\<open>test_correct_meascfg_calculation\<close> that calls them is. The definitions of this
  section follow the words of the specification: a measurement configuration holds three
  ordered sets keyed by identifier; the diff emits, for each of them, the identifiers
  present in the source and absent in the target (to remove) and the target entries that
  differ from the source (to add or modify); within a measurement object the neighbour
  cells are diffed in the same way by cell index. A list is flagged present when it is
  not empty. Applying a delta removes the listed identifiers and then, for each entry to
  add or modify in turn, replaces the entry of that identifier or inserts it at its place
  in the order. Removal is by identifier only.
\<close>

type_synonym 'v keyed = "(nat \<times> 'v) list"

text \<open>An ordered set keyed by identifier: strictly increasing keys.\<close>

definition keys_ok :: "'v keyed \<Rightarrow> bool" where
  "keys_ok xs = sorted_wrt (<) (map fst xs)"

text \<open>Modelled from the spec: identifiers present in the source and absent in the target.\<close>

definition to_rem :: "'v keyed \<Rightarrow> 'v keyed \<Rightarrow> nat list" where
  "to_rem src tgt = map fst (filter (\<lambda>e. map_of tgt (fst e) = None) src)"

text \<open>Modelled from the spec: target entries that are new or differ from the source.\<close>

definition to_add_mod :: "'v keyed \<Rightarrow> 'v keyed \<Rightarrow> 'v keyed" where
  "to_add_mod src tgt = filter (\<lambda>e. map_of src (fst e) \<noteq> Some (snd e)) tgt"

text \<open>Modelled from the spec: removal of the listed identifiers.\<close>

definition apply_rem :: "nat list \<Rightarrow> 'v keyed \<Rightarrow> 'v keyed" where
  "apply_rem ks xs = filter (\<lambda>e. fst e \<notin> set ks) xs"

text \<open>Modelled from the spec: the entry with identifier \<open>k\<close> is replaced, or inserted at its
  place in the order when there is none.\<close>

definition add_mod_entry :: "nat \<Rightarrow> 'v \<Rightarrow> 'v keyed \<Rightarrow> 'v keyed" where
  "add_mod_entry k v xs =
     filter (\<lambda>e. fst e < k) xs @ [(k, v)] @ filter (\<lambda>e. k < fst e) xs"

definition apply_add_mod :: "'v keyed \<Rightarrow> 'v keyed \<Rightarrow> 'v keyed" where
  "apply_add_mod es xs = fold (\<lambda>e. add_mod_entry (fst e) (snd e)) es xs"

text \<open>
  Modelled from the spec: the declarations of the measurement configuration are missing
  from the sources covered here. A neighbour cell is keyed by its cell index and holds the PCI and the offset. A
  measurement object holds the EARFCN and its neighbour cells. A report configuration
  holds the fields the specification lists. A measurement identity maps to an object
  identifier and a report identifier.
\<close>

type_synonym meas_cell = "nat \<times> int"

record meas_obj =
  earfcn :: nat
  cells :: "meas_cell keyed"

datatype trigger_type = Event_A1 | Event_A2 | Event_A3 | Event_A4 | Event_A5 | Event_A6

record report_cfg =
  trigger :: trigger_type
  threshold :: int
  hysteresis :: nat
  time_to_trigger :: nat
  max_report_cells :: nat
  report_amount :: nat
  report_interval :: nat

record var_meas_cfg =
  var_meas_objs :: "meas_obj keyed"
  var_report_cfgs :: "report_cfg keyed"
  var_meas_ids :: "(nat \<times> nat) keyed"

text \<open>The delta of one measurement object and the delta of a configuration, with the
  presence flags of their lists.\<close>

record meas_obj_to_add_mod =
  carrier_freq :: nat
  cells_to_rem_list_present :: bool
  cells_to_rem_list :: "nat list"
  cells_to_add_mod_list_present :: bool
  cells_to_add_mod_list :: "meas_cell keyed"

record meas_cfg =
  meas_obj_to_rem_list_present :: bool
  meas_obj_to_rem_list :: "nat list"
  meas_obj_to_add_mod_list_present :: bool
  meas_obj_to_add_mod_list :: "meas_obj_to_add_mod keyed"
  report_cfg_to_rem_list_present :: bool
  report_cfg_to_rem_list :: "nat list"
  report_cfg_to_add_mod_list_present :: bool
  report_cfg_to_add_mod_list :: "report_cfg keyed"
  meas_id_to_rem_list_present :: bool
  meas_id_to_rem_list :: "nat list"
  meas_id_to_add_mod_list_present :: bool
  meas_id_to_add_mod_list :: "(nat \<times> nat) keyed"

text \<open>The neighbour cells configured for object \<open>k\<close>, none when the object is absent.\<close>

definition cells_of :: "meas_obj keyed \<Rightarrow> nat \<Rightarrow> meas_cell keyed" where
  "cells_of objs k = (case map_of objs k of None \<Rightarrow> [] | Some ob \<Rightarrow> cells ob)"

text \<open>Modelled from the spec: the delta of a target object against the cells of the source
  object of the same identifier.\<close>

definition diff_meas_obj :: "meas_cell keyed \<Rightarrow> meas_obj \<Rightarrow> meas_obj_to_add_mod" where
  "diff_meas_obj src_cells ob =
     \<lparr>carrier_freq = earfcn ob,
      cells_to_rem_list_present = (to_rem src_cells (cells ob) \<noteq> []),
      cells_to_rem_list = to_rem src_cells (cells ob),
      cells_to_add_mod_list_present = (to_add_mod src_cells (cells ob) \<noteq> []),
      cells_to_add_mod_list = to_add_mod src_cells (cells ob)\<rparr>"

text \<open>Modelled from the spec: \<^verbatim>\<open>src.compute_diff_meas_cfg(target, &result)\<close>.\<close>

definition compute_diff_meas_cfg :: "var_meas_cfg \<Rightarrow> var_meas_cfg \<Rightarrow> meas_cfg" where
  "compute_diff_meas_cfg src tgt =
     (let obj_rem = to_rem (var_meas_objs src) (var_meas_objs tgt);
          obj_add = map (\<lambda>e. (fst e, diff_meas_obj (cells_of (var_meas_objs src) (fst e)) (snd e)))
                      (to_add_mod (var_meas_objs src) (var_meas_objs tgt));
          rep_rem = to_rem (var_report_cfgs src) (var_report_cfgs tgt);
          rep_add = to_add_mod (var_report_cfgs src) (var_report_cfgs tgt);
          id_rem = to_rem (var_meas_ids src) (var_meas_ids tgt);
          id_add = to_add_mod (var_meas_ids src) (var_meas_ids tgt)
      in \<lparr>meas_obj_to_rem_list_present = (obj_rem \<noteq> []), meas_obj_to_rem_list = obj_rem,
          meas_obj_to_add_mod_list_present = (obj_add \<noteq> []), meas_obj_to_add_mod_list = obj_add,
          report_cfg_to_rem_list_present = (rep_rem \<noteq> []), report_cfg_to_rem_list = rep_rem,
          report_cfg_to_add_mod_list_present = (rep_add \<noteq> []), report_cfg_to_add_mod_list = rep_add,
          meas_id_to_rem_list_present = (id_rem \<noteq> []), meas_id_to_rem_list = id_rem,
          meas_id_to_add_mod_list_present = (id_add \<noteq> []), meas_id_to_add_mod_list = id_add\<rparr>)"

text \<open>Modelled from the spec: applying the delta of one object to the list of objects. The
  cell lists of the delta act on the cells the object has so far.\<close>

definition apply_meas_obj :: "nat \<times> meas_obj_to_add_mod \<Rightarrow> meas_obj keyed \<Rightarrow> meas_obj keyed" where
  "apply_meas_obj e objs =
     (let d = snd e;
          c0 = cells_of objs (fst e);
          c1 = (if cells_to_rem_list_present d then apply_rem (cells_to_rem_list d) c0 else c0);
          c2 = (if cells_to_add_mod_list_present d then apply_add_mod (cells_to_add_mod_list d) c1
                else c1)
      in add_mod_entry (fst e) \<lparr>earfcn = carrier_freq d, cells = c2\<rparr> objs)"

text \<open>Modelled from the spec: applying a delta to a configuration. A list that is not
  flagged present is not looked at.\<close>

definition apply_meas_cfg :: "meas_cfg \<Rightarrow> var_meas_cfg \<Rightarrow> var_meas_cfg" where
  "apply_meas_cfg d c =
     (let o1 = (if meas_obj_to_rem_list_present d
                then apply_rem (meas_obj_to_rem_list d) (var_meas_objs c) else var_meas_objs c);
          o2 = (if meas_obj_to_add_mod_list_present d
                then fold apply_meas_obj (meas_obj_to_add_mod_list d) o1 else o1);
          r1 = (if report_cfg_to_rem_list_present d
                then apply_rem (report_cfg_to_rem_list d) (var_report_cfgs c) else var_report_cfgs c);
          r2 = (if report_cfg_to_add_mod_list_present d
                then apply_add_mod (report_cfg_to_add_mod_list d) r1 else r1);
          i1 = (if meas_id_to_rem_list_present d
                then apply_rem (meas_id_to_rem_list d) (var_meas_ids c) else var_meas_ids c);
          i2 = (if meas_id_to_add_mod_list_present d
                then apply_add_mod (meas_id_to_add_mod_list d) i1 else i1)
      in \<lparr>var_meas_objs = o2, var_report_cfgs = r2, var_meas_ids = i2\<rparr>)"

text \<open>A well-formed configuration: every keyed list is an ordered set.\<close>

definition var_meas_cfg_ok :: "var_meas_cfg \<Rightarrow> bool" where
  "var_meas_cfg_ok c =
     (keys_ok (var_meas_objs c) \<and> (\<forall>e \<in> set (var_meas_objs c). keys_ok (cells (snd e))) \<and>
      keys_ok (var_report_cfgs c) \<and> keys_ok (var_meas_ids c))"

text \<open>The delta in which no presence flag is set.\<close>

definition empty_meas_cfg :: meas_cfg where
  "empty_meas_cfg =
     \<lparr>meas_obj_to_rem_list_present = False, meas_obj_to_rem_list = [],
      meas_obj_to_add_mod_list_present = False, meas_obj_to_add_mod_list = [],
      report_cfg_to_rem_list_present = False, report_cfg_to_rem_list = [],
      report_cfg_to_add_mod_list_present = False, report_cfg_to_add_mod_list = [],
      meas_id_to_rem_list_present = False, meas_id_to_rem_list = [],
      meas_id_to_add_mod_list_present = False, meas_id_to_add_mod_list = []\<rparr>"

text \<open>
  Two configurations shaped like the last case of \<^verbatim>\<open>test_correct_meascfg_calculation\<close>:
  the source has one object with two neighbour cells, two report configurations and two
  measurement identities; the target keeps the second cell, changes the second report
  configuration and has no measurement identity.
\<close>

definition example_report :: "nat \<Rightarrow> report_cfg" where
  "example_report amount =
     \<lparr>trigger = Event_A3, threshold = 5, hysteresis = 0, time_to_trigger = 100,
      max_report_cells = 2, report_amount = amount, report_interval = 240\<rparr>"

definition example_src_cfg :: var_meas_cfg where
  "example_src_cfg =
     \<lparr>var_meas_objs = [(1, \<lparr>earfcn = 3400, cells = [(1, (3, 0)), (2, (2, 0))]\<rparr>)],
      var_report_cfgs = [(1, example_report 16), (2, example_report 8)],
      var_meas_ids = [(1, (1, 1)), (2, (1, 2))]\<rparr>"

definition example_tgt_cfg :: var_meas_cfg where
  "example_tgt_cfg =
     \<lparr>var_meas_objs = [(1, \<lparr>earfcn = 3400, cells = [(2, (2, 0))]\<rparr>)],
      var_report_cfgs = [(1, example_report 16), (2, example_report 4)],
      var_meas_ids = []\<rparr>"

section \<open>Softbuffer getters stay in range\<close>

lemma unat_mod_less:
  fixes a n :: u32
  assumes "n \<noteq> 0" and "unat n \<le> k"
  shows "unat (a mod n) < k"
proof -
  have "0 < unat n" using assms(1) by (simp add: unat_gt_0)
  then have "unat a mod unat n < unat n" by simp
  then show ?thesis using assms(2) by (simp add: unat_mod)
qed

text \<open>
  C10. For \<^verbatim>\<open>get_rx_softbuffer\<close> and \<^verbatim>\<open>get_tx_softbuffer\<close>: a carrier index that
  is not smaller than the number of allocated carrier rows yields a null pointer; for a
  carrier index in range, with a non-zero number of HARQ processes that does not exceed
  the row, the getter returns the buffer whose index is the requested index reduced
  modulo the number of HARQ processes; and whatever pointer is returned refers to an
  allocated softbuffer.
\<close>

theorem get_softbuffer_in_range:
  "(length (softbuffer_rx u) \<le> unat cc \<longrightarrow> get_rx_softbuffer u cc tti = Nullptr) \<and>
   (length (softbuffer_tx u) \<le> unat cc \<longrightarrow> get_tx_softbuffer max_tb u cc pid tb = Nullptr) \<and>
   (unat cc < length (softbuffer_rx u) \<and> nof_rx_harq_proc u \<noteq> 0 \<and>
      unat (nof_rx_harq_proc u) \<le> length (softbuffer_rx u ! unat cc) \<longrightarrow>
      get_rx_softbuffer u cc tti = Ptr (unat cc) (unat tti mod unat (nof_rx_harq_proc u))) \<and>
   (unat cc < length (softbuffer_tx u) \<and> nof_tx_harq_proc u \<noteq> 0 \<and>
      unat (nof_tx_harq_proc u) \<le> length (softbuffer_tx u ! unat cc) \<longrightarrow>
      get_tx_softbuffer max_tb u cc pid tb =
        Ptr (unat cc) (unat (pid * max_tb + tb) mod unat (nof_tx_harq_proc u))) \<and>
   (get_rx_softbuffer u cc tti = Ptr c i \<longrightarrow> refers_to (softbuffer_rx u) (Ptr c i)) \<and>
   (get_tx_softbuffer max_tb u cc pid tb = Ptr c i \<longrightarrow> refers_to (softbuffer_tx u) (Ptr c i))"
proof (intro conjI impI)
  assume "length (softbuffer_rx u) \<le> unat cc"
  then show "get_rx_softbuffer u cc tti = Nullptr"
    by (simp add: get_rx_softbuffer_def)
next
  assume "length (softbuffer_tx u) \<le> unat cc"
  then show "get_tx_softbuffer max_tb u cc pid tb = Nullptr"
    by (simp add: get_tx_softbuffer_def)
next
  assume h: "unat cc < length (softbuffer_rx u) \<and> nof_rx_harq_proc u \<noteq> 0 \<and>
      unat (nof_rx_harq_proc u) \<le> length (softbuffer_rx u ! unat cc)"
  then have "unat (tti mod nof_rx_harq_proc u) < length (softbuffer_rx u ! unat cc)"
    by (simp add: unat_mod_less)
  with h show "get_rx_softbuffer u cc tti = Ptr (unat cc) (unat tti mod unat (nof_rx_harq_proc u))"
    by (simp add: get_rx_softbuffer_def vector_at2_def unat_mod)
next
  assume h: "unat cc < length (softbuffer_tx u) \<and> nof_tx_harq_proc u \<noteq> 0 \<and>
      unat (nof_tx_harq_proc u) \<le> length (softbuffer_tx u ! unat cc)"
  then have "unat ((pid * max_tb + tb) mod nof_tx_harq_proc u) < length (softbuffer_tx u ! unat cc)"
    by (simp add: unat_mod_less)
  with h show "get_tx_softbuffer max_tb u cc pid tb =
        Ptr (unat cc) (unat (pid * max_tb + tb) mod unat (nof_tx_harq_proc u))"
    by (simp add: get_tx_softbuffer_def vector_at2_def unat_mod)
next
  assume "get_rx_softbuffer u cc tti = Ptr c i"
  then show "refers_to (softbuffer_rx u) (Ptr c i)"
    by (auto simp: get_rx_softbuffer_def vector_at2_def split: if_splits)
next
  assume "get_tx_softbuffer max_tb u cc pid tb = Ptr c i"
  then show "refers_to (softbuffer_tx u) (Ptr c i)"
    by (auto simp: get_tx_softbuffer_def vector_at2_def split: if_splits)
qed

theorem get_softbuffer_in_range_witness:
  "unat (0::u32) < length (softbuffer_rx (ue_ctor 25 8 8)) \<and>
   nof_rx_harq_proc (ue_ctor 25 8 8) \<noteq> 0 \<and>
   unat (nof_rx_harq_proc (ue_ctor 25 8 8)) \<le> length (softbuffer_rx (ue_ctor 25 8 8) ! unat (0::u32)) \<and>
   get_rx_softbuffer (ue_ctor 25 8 8) 0 13 = Ptr 0 5 \<and>
   get_tx_softbuffer 2 (ue_ctor 25 8 8) 0 3 1 = Ptr 0 7 \<and>
   refers_to (softbuffer_rx (ue_ctor 25 8 8)) (Ptr 0 5) \<and>
   length (softbuffer_rx (ue_ctor 25 8 8)) \<le> unat (1::u32) \<and>
   get_rx_softbuffer (ue_ctor 25 8 8) 1 13 = Nullptr"
proof -
  let ?u = "ue_ctor 25 8 8"
  have rx: "softbuffer_rx ?u = [replicate 8 (Softbuffer_init 25)]"
    and tx: "softbuffer_tx ?u = [replicate 8 (Softbuffer_init 25)]"
    and n: "nof_rx_harq_proc ?u = 8" "nof_tx_harq_proc ?u = 8"
    by (simp_all add: ue_ctor_def allocate_cc_buffers_def allocate_cc_step_def)
  have h1: "unat (0::u32) < length (softbuffer_rx ?u) \<and> nof_rx_harq_proc ?u \<noteq> 0 \<and>
      unat (nof_rx_harq_proc ?u) \<le> length (softbuffer_rx ?u ! unat (0::u32))"
    by (simp add: rx n)
  have h2: "unat (0::u32) < length (softbuffer_tx ?u) \<and> nof_tx_harq_proc ?u \<noteq> 0 \<and>
      unat (nof_tx_harq_proc ?u) \<le> length (softbuffer_tx ?u ! unat (0::u32))"
    by (simp add: tx n)
  have h3: "length (softbuffer_rx ?u) \<le> unat (1::u32)"
    by (simp add: rx)
  note t = get_softbuffer_in_range [of ?u 0 13 2 3 1 0 5]
  from t h1 have "get_rx_softbuffer ?u 0 13 = Ptr (unat (0::u32)) (unat (13::u32) mod unat (nof_rx_harq_proc ?u))"
    by blast
  then have a1: "get_rx_softbuffer ?u 0 13 = Ptr 0 5" by (simp add: n)
  from t h2 have "get_tx_softbuffer 2 ?u 0 3 1 = Ptr (unat (0::u32)) (unat (3 * 2 + 1 :: u32) mod unat (nof_tx_harq_proc ?u))"
    by blast
  then have a2: "get_tx_softbuffer 2 ?u 0 3 1 = Ptr 0 7" by (simp add: n)
  from t a1 have a3: "refers_to (softbuffer_rx ?u) (Ptr 0 5)" by blast
  from get_softbuffer_in_range [of ?u 1 13 2 3 1 0 5] h3
  have b: "get_rx_softbuffer ?u 1 13 = Nullptr" by blast
  show ?thesis using h1 h3 a1 a2 a3 b by blast
qed

section \<open>Uplink PDU processing\<close>

lemmas pdu_eval = process_pdu_def Let_def route_pdu_def payload_sum_def get_payload_size_def
  emit_def save_conres_def MAC_CE_CONTRES_LEN_def MAX_LC_GROUP_def ue_db_def

lemma unat_u8_le: "unat (b::u8) \<le> 255"
  using unsigned_less[of b, where 'a=nat] by simp

lemma unat_ucast_u8_u32: "unat (ucast (b::u8) :: u32) = unat b"
proof -
  have "unat b < 2 ^ 32" using unat_u8_le[of b] by simp
  then show ?thesis by (simp add: unsigned_ucast_eq take_bit_nat_eq_self)
qed

lemma unat_payload_sum_aux:
  "unat acc + 255 * length x < 2 ^ 32 \<Longrightarrow>
   unat (fold (\<lambda>b sum. sum + ucast b) x (acc::u32)) = unat acc + sum_list (map unat (x :: u8 list))"
proof (induction x arbitrary: acc)
  case Nil then show ?case by simp
next
  case (Cons b x)
  have b: "unat b \<le> 255" by (rule unat_u8_le)
  have "unat acc + unat (ucast b :: u32) < 2 ^ LENGTH(32)"
    using Cons.prems b by (simp add: unat_ucast_u8_u32)
  then have step: "unat (acc + ucast b) = unat acc + unat b"
    by (simp add: unat_add_lem[THEN iffD1] unat_ucast_u8_u32)
  have "unat (acc + ucast b) + 255 * length x < 2 ^ 32"
    using Cons.prems b step by simp
  from Cons.IH[OF this] step show ?case by simp
qed

lemma payload_sum_zero:
  assumes "length x < 2 ^ 24"
  shows "payload_sum x = 0 \<longleftrightarrow> all_zero x"
proof -
  have "255 * length x < 2 ^ 32" using assms by simp
  then have "unat (payload_sum x) = sum_list (map unat x)"
    unfolding payload_sum_def using unat_payload_sum_aux[of 0 x] by simp
  moreover have "payload_sum x = 0 \<longleftrightarrow> unat (payload_sum x) = 0"
    by (simp add: unat_eq_0)
  moreover have "sum_list (map unat x) = 0 \<longleftrightarrow> (\<forall>b\<in>set x. b = 0)"
    by (induction x) (auto simp: unat_eq_0)
  ultimately show ?thesis by (simp add: all_zero_def)
qed

lemma payload_size_unat:
  assumes "length x < 2 ^ 24"
  shows "unat (get_payload_size x) = length x"
proof -
  have "length x < 2 ^ 32" using assms by simp
  then show ?thesis by (simp add: get_payload_size_def unat_of_nat)
qed

lemma payload_size_sint:
  assumes "length x < 2 ^ 24"
  shows "sint (get_payload_size x) = int (length x)"
proof -
  have "length x < 2 ^ 31" using assms by simp
  then have "int (length x) < 2 ^ 31" by (metis of_nat_less_numeral_power_cancel_iff)
  then show ?thesis
    by (simp add: get_payload_size_def signed_of_nat signed_take_bit_int_eq_self)
qed

lemma payload_size_ge6:
  "length x < 2 ^ 24 \<Longrightarrow> get_payload_size x \<ge> word_of_nat MAC_CE_CONTRES_LEN \<longleftrightarrow> MAC_CE_CONTRES_LEN \<le> length x"
  by (simp add: word_le_nat_alt payload_size_unat MAC_CE_CONTRES_LEN_def)

lemma payload_size_gt64:
  "length x < 2 ^ 24 \<Longrightarrow> get_payload_size x > 64 \<longleftrightarrow> 64 < length x"
  by (simp add: word_less_nat_alt payload_size_unat)

lemma save_conres_eq:
  assumes "length cri = 8" and "6 \<le> length pkt"
  shows "save_conres pkt cri = rev (take 6 pkt) @ drop 6 cri"
proof -
  obtain c0 c1 c2 c3 c4 c5 c6 c7 where c: "cri = [c0,c1,c2,c3,c4,c5,c6,c7]"
    using assms(1) by (auto simp: length_Suc_conv numeral_eq_Suc)
  obtain p0 p1 p2 p3 p4 p5 ps where p: "pkt = p0#p1#p2#p3#p4#p5#ps"
    using assms(2) by (auto simp: Suc_le_length_iff numeral_eq_Suc)
  have u: "[0..<6] = [0,1,2,3,4,5]" by (simp add: upt_rec)
  show ?thesis by (simp add: save_conres_def MAC_CE_CONTRES_LEN_def c p u)
qed

lemma emit_simps [simp]:
  "trace (emit es st) = trace st @ es" "rnti (emit es st) = rnti st"
  "conres_id (emit es st) = conres_id st"
  by (simp_all add: emit_def)

lemma route_pdu_delivered:
  "length x < 2 ^ 24 \<Longrightarrow> route_pdu lcid x = delivered (SDU lcid x)"
  by (simp add: route_pdu_def payload_sum_zero)

lemma sdu_step_rnti: "rnti (ue (sdu_step sh s)) = rnti (ue s)"
  by (cases sh) (simp_all add: Let_def)

lemma sdu_step_trace:
  assumes "is_sdu sh \<longrightarrow> length (sdu_payload sh) < 2 ^ 24"
  shows "\<exists>es. trace (ue (sdu_step sh s)) = trace (ue s) @ es \<and>
           filter is_rlc_write es =
             (if delivered sh then [Rlc_write_pdu (rnti (ue s)) (sdu_lcid sh) (sdu_payload sh)] else []) \<and>
           filter is_buffer_add es = []"
proof (cases sh)
  case (CE c) then show ?thesis by simp
next
  case (SDU lcid x)
  then have "length x < 2 ^ 24" using assms by simp
  then have r: "route_pdu lcid x = delivered (SDU lcid x)" by (rule route_pdu_delivered)
  show ?thesis unfolding SDU by (simp add: Let_def r del: delivered.simps)
qed

lemma sdu_step_conres:
  assumes "is_sdu sh \<longrightarrow> length (sdu_payload sh) < 2 ^ 24"
  shows "conres_id (ue (sdu_step sh s)) =
           (if carries_conres sh then save_conres (sdu_payload sh) (conres_id (ue s))
            else conres_id (ue s))"
proof (cases sh)
  case (CE c) then show ?thesis by simp
next
  case (SDU lcid x)
  then have l: "length x < 2 ^ 24" using assms by simp
  show ?thesis unfolding SDU
    by (simp add: Let_def route_pdu_delivered[OF l] payload_size_ge6[OF l])
qed

lemma sdu_step_most:
  assumes "is_sdu sh \<longrightarrow> length (sdu_payload sh) < 2 ^ 24"
  shows "(most_data (sdu_step sh s), lcid_most_data (sdu_step sh s)) =
           (if is_sdu sh \<and> int (length (sdu_payload sh)) > most_data s
            then (int (length (sdu_payload sh)), sdu_lcid sh)
            else (most_data s, lcid_most_data s))"
proof (cases sh)
  case (CE c) then show ?thesis by simp
next
  case (SDU lcid x)
  then have l: "length x < 2 ^ 24" using assms by simp
  show ?thesis unfolding SDU
    by (simp add: Let_def payload_size_sint[OF l])
qed

lemma sdu_pass_trace:
  "sdu_sizes_ok pdu \<Longrightarrow>
   \<exists>es. trace (ue (fold sdu_step pdu s)) = trace (ue s) @ es \<and>
        filter is_rlc_write es =
          map (\<lambda>sh. Rlc_write_pdu (rnti (ue s)) (sdu_lcid sh) (sdu_payload sh)) (filter delivered pdu) \<and>
        filter is_buffer_add es = []"
proof (induction pdu arbitrary: s)
  case Nil then show ?case by simp
next
  case (Cons sh pdu)
  from Cons.prems have ok: "is_sdu sh \<longrightarrow> length (sdu_payload sh) < 2 ^ 24" and oks: "sdu_sizes_ok pdu"
    by (simp_all add: sdu_sizes_ok_def)
  from sdu_step_trace[OF ok, of s] obtain e1 where
    e1: "trace (ue (sdu_step sh s)) = trace (ue s) @ e1"
        "filter is_rlc_write e1 =
           (if delivered sh then [Rlc_write_pdu (rnti (ue s)) (sdu_lcid sh) (sdu_payload sh)] else [])"
        "filter is_buffer_add e1 = []" by blast
  from Cons.IH[OF oks, of "sdu_step sh s"] obtain e2 where
    e2: "trace (ue (fold sdu_step pdu (sdu_step sh s))) = trace (ue (sdu_step sh s)) @ e2"
        "filter is_rlc_write e2 =
           map (\<lambda>sh'. Rlc_write_pdu (rnti (ue (sdu_step sh s))) (sdu_lcid sh') (sdu_payload sh')) (filter delivered pdu)"
        "filter is_buffer_add e2 = []" by blast
  show ?case
    by (rule exI[of _ "e1 @ e2"]) (simp add: e1 e2 sdu_step_rnti)
qed

lemma sdu_pass_rnti: "rnti (ue (fold sdu_step pdu s)) = rnti (ue s)"
  by (induction pdu arbitrary: s) (simp_all add: sdu_step_rnti)

lemma save_conres_length: "length (save_conres pkt cri) = length cri"
proof -
  have "length (fold (\<lambda>i c. c[MAC_CE_CONTRES_LEN - i - 1 := pkt ! i]) is cri) = length cri" for "is"
    by (induction "is" arbitrary: cri) simp_all
  then show ?thesis by (simp add: save_conres_def)
qed

lemma sdu_pass_conres:
  assumes "sdu_sizes_ok pdu" and "length (conres_id (ue s)) = 8"
  shows "conres_id (ue (fold sdu_step pdu s)) =
           (if filter carries_conres pdu = [] then conres_id (ue s)
            else rev (take 6 (sdu_payload (last (filter carries_conres pdu)))) @
                 drop 6 (conres_id (ue s))) \<and>
         length (conres_id (ue (fold sdu_step pdu s))) = 8"
  using assms(1)
proof (induction pdu rule: rev_induct)
  case Nil then show ?case using assms(2) by simp
next
  case (snoc sh pdu)
  from snoc.prems have ok: "is_sdu sh \<longrightarrow> length (sdu_payload sh) < 2 ^ 24" and oks: "sdu_sizes_ok pdu"
    by (simp_all add: sdu_sizes_ok_def)
  let ?p = "fold sdu_step pdu s"
  note ih = snoc.IH[OF oks]
  have len: "length (conres_id (ue ?p)) = 8" by (rule ih[THEN conjunct2])
  have d6: "drop 6 (conres_id (ue ?p)) = drop 6 (conres_id (ue s))"
  proof (cases "filter carries_conres pdu = []")
    case True
    then show ?thesis using ih[THEN conjunct1] by simp
  next
    case False
    then have "last (filter carries_conres pdu) \<in> set (filter carries_conres pdu)"
      by (rule last_in_set)
    then have "carries_conres (last (filter carries_conres pdu))" by simp
    then have "6 \<le> length (sdu_payload (last (filter carries_conres pdu)))"
      by (cases "last (filter carries_conres pdu)") (simp_all add: MAC_CE_CONTRES_LEN_def)
    then have "length (rev (take 6 (sdu_payload (last (filter carries_conres pdu))))) = 6"
      by simp
    then show ?thesis using ih[THEN conjunct1] False by simp
  qed
  have A: "conres_id (ue (fold sdu_step (pdu @ [sh]) s)) =
             (if carries_conres sh then save_conres (sdu_payload sh) (conres_id (ue ?p))
              else conres_id (ue ?p))"
    by (simp add: sdu_step_conres[OF ok])
  have L: "length (conres_id (ue (fold sdu_step (pdu @ [sh]) s))) = 8"
    unfolding A using len by (simp add: save_conres_length)
  have E: "conres_id (ue (fold sdu_step (pdu @ [sh]) s)) =
           (if filter carries_conres (pdu @ [sh]) = [] then conres_id (ue s)
            else rev (take 6 (sdu_payload (last (filter carries_conres (pdu @ [sh]))))) @
                 drop 6 (conres_id (ue s)))"
  proof (cases "carries_conres sh")
    case False
    then show ?thesis unfolding A using ih[THEN conjunct1] by simp
  next
    case True
    then have "6 \<le> length (sdu_payload sh)"
      by (cases sh) (simp_all add: MAC_CE_CONTRES_LEN_def)
    then have "save_conres (sdu_payload sh) (conres_id (ue ?p)) =
                 rev (take 6 (sdu_payload sh)) @ drop 6 (conres_id (ue ?p))"
      using len by (simp add: save_conres_eq)
    then show ?thesis unfolding A using True d6 by simp
  qed
  show ?case using E L by (rule conjI)
qed

lemma first_largest_unique:
  "first_largest pdu i \<Longrightarrow> first_largest pdu j \<Longrightarrow> i = j"
proof (rule ccontr)
  assume a: "first_largest pdu i" "first_largest pdu j" "i \<noteq> j"
  then consider "i < j" | "j < i" by linarith
  then show False
  proof cases
    case 1
    with a have "length (sdu_payload (pdu ! i)) < length (sdu_payload (pdu ! j))"
      by (simp add: first_largest_def)
    moreover from a have "length (sdu_payload (pdu ! j)) \<le> length (sdu_payload (pdu ! i))"
      by (simp add: first_largest_def)
    ultimately show False by simp
  next
    case 2
    with a have "length (sdu_payload (pdu ! j)) < length (sdu_payload (pdu ! i))"
      by (simp add: first_largest_def)
    moreover from a have "length (sdu_payload (pdu ! i)) \<le> length (sdu_payload (pdu ! j))"
      by (simp add: first_largest_def)
    ultimately show False by simp
  qed
qed

lemma first_largest_snoc_keep:
  assumes "first_largest pdu i"
    and "is_sdu sh \<longrightarrow> length (sdu_payload sh) \<le> length (sdu_payload (pdu ! i))"
  shows "first_largest (pdu @ [sh]) i"
  using assms by (auto simp: first_largest_def nth_append less_Suc_eq)

lemma first_largest_snoc_new:
  assumes "is_sdu sh"
    and "\<forall>j < length pdu. is_sdu (pdu ! j) \<longrightarrow> length (sdu_payload (pdu ! j)) < length (sdu_payload sh)"
  shows "first_largest (pdu @ [sh]) (length pdu)"
  using assms by (auto simp: first_largest_def nth_append less_Suc_eq intro: less_imp_le)

lemma sdu_pass_most:
  assumes "sdu_sizes_ok pdu" and "most_data s = -99" and "lcid_most_data s = 0"
  shows "if \<exists>sh \<in> set pdu. is_sdu sh
         then \<exists>i. first_largest pdu i \<and>
                  lcid_most_data (fold sdu_step pdu s) = sdu_lcid (pdu ! i) \<and>
                  most_data (fold sdu_step pdu s) = int (length (sdu_payload (pdu ! i)))
         else lcid_most_data (fold sdu_step pdu s) = 0 \<and> most_data (fold sdu_step pdu s) = -99"
  using assms(1)
proof (induction pdu rule: rev_induct)
  case Nil then show ?case using assms by simp
next
  case (snoc sh pdu)
  from snoc.prems have ok: "is_sdu sh \<longrightarrow> length (sdu_payload sh) < 2 ^ 24" and oks: "sdu_sizes_ok pdu"
    by (simp_all add: sdu_sizes_ok_def)
  let ?p = "fold sdu_step pdu s"
  note ih = snoc.IH[OF oks]
  note st = sdu_step_most[OF ok, of ?p]
  show ?case
  proof (cases "is_sdu sh")
    case False
    then have same: "most_data (sdu_step sh ?p) = most_data ?p"
        "lcid_most_data (sdu_step sh ?p) = lcid_most_data ?p"
      using st by simp_all
    show ?thesis
    proof (cases "\<exists>sh \<in> set pdu. is_sdu sh")
      case True
      with ih obtain i where i: "first_largest pdu i"
        "lcid_most_data ?p = sdu_lcid (pdu ! i)"
        "most_data ?p = int (length (sdu_payload (pdu ! i)))" by auto
      have fl: "first_largest (pdu @ [sh]) i"
        using first_largest_snoc_keep[OF i(1)] False by simp
      have "i < length pdu" using i(1) by (simp add: first_largest_def)
      then have "(pdu @ [sh]) ! i = pdu ! i" by (simp add: nth_append)
      with fl i same True show ?thesis by auto
    next
      case F2: False
      with ih same False show ?thesis by auto
    qed
  next
    case sdu: True
    show ?thesis
    proof (cases "\<exists>sh \<in> set pdu. is_sdu sh")
      case True
      with ih obtain i where i: "first_largest pdu i"
        "lcid_most_data ?p = sdu_lcid (pdu ! i)"
        "most_data ?p = int (length (sdu_payload (pdu ! i)))" by auto
      have il: "i < length pdu" using i(1) by (simp add: first_largest_def)
      then have nth: "(pdu @ [sh]) ! i = pdu ! i" by (simp add: nth_append)
      show ?thesis
      proof (cases "length (sdu_payload sh) > length (sdu_payload (pdu ! i))")
        case gt: True
        have "\<forall>j < length pdu. is_sdu (pdu ! j) \<longrightarrow> length (sdu_payload (pdu ! j)) < length (sdu_payload sh)"
          using i(1) gt by (auto simp: first_largest_def intro: le_less_trans)
        from first_largest_snoc_new[OF sdu this]
        have fl: "first_largest (pdu @ [sh]) (length pdu)" .
        have "most_data (sdu_step sh ?p) = int (length (sdu_payload sh))"
             "lcid_most_data (sdu_step sh ?p) = sdu_lcid sh"
          using st sdu gt i(3) by simp_all
        with fl sdu show ?thesis by (auto intro!: exI[of _ "length pdu"])
      next
        case le: False
        have fl: "first_largest (pdu @ [sh]) i"
          using first_largest_snoc_keep[OF i(1)] le by simp
        have "most_data (sdu_step sh ?p) = most_data ?p"
             "lcid_most_data (sdu_step sh ?p) = lcid_most_data ?p"
          using st sdu le i(3) by simp_all
        with fl i nth sdu show ?thesis by (auto intro!: exI[of _ i])
      qed
    next
      case none: False
      with ih have init: "lcid_most_data ?p = 0" "most_data ?p = -99" by auto
      have "\<forall>j < length pdu. is_sdu (pdu ! j) \<longrightarrow> length (sdu_payload (pdu ! j)) < length (sdu_payload sh)"
        using none by (auto dest: nth_mem)
      from first_largest_snoc_new[OF sdu this]
      have fl: "first_largest (pdu @ [sh]) (length pdu)" .
      have "most_data (sdu_step sh ?p) = int (length (sdu_payload sh))"
           "lcid_most_data (sdu_step sh ?p) = sdu_lcid sh"
        using st sdu init by simp_all
      with fl sdu show ?thesis by (auto intro!: exI[of _ "length pdu"])
    qed
  qed
qed

lemma process_ce_props:
  assumes "process_ce ue_exists c st = (b, st')"
  shows "(b \<longleftrightarrow> valid_bsr (CE c)) \<and> conres_id st' = conres_id st \<and>
         (\<exists>es. trace st' = trace st @ es \<and> filter is_rlc_write es = [] \<and>
               filter is_buffer_add es = [])"
  using assms by (cases c) (auto split: if_splits simp: comp_def)

lemma ce_pass:
  "fold (ce_step ue_exists) pdu (b, st) = (b', st') \<Longrightarrow>
   (b' \<longleftrightarrow> b \<or> (\<exists>sh \<in> set pdu. valid_bsr sh)) \<and> conres_id st' = conres_id st \<and>
   (\<exists>es. trace st' = trace st @ es \<and> filter is_rlc_write es = [] \<and>
         filter is_buffer_add es = [])"
proof (induction pdu arbitrary: b st)
  case Nil then show ?case by simp
next
  case (Cons sh pdu)
  show ?case
  proof (cases sh)
    case (SDU lcid x)
    with Cons.prems have "fold (ce_step ue_exists) pdu (b, st) = (b', st')" by simp
    from Cons.IH[OF this] SDU show ?thesis by simp
  next
    case (CE c)
    obtain b1 st1 where p: "process_ce ue_exists c st = (b1, st1)" by (cases "process_ce ue_exists c st")
    with Cons.prems CE have f: "fold (ce_step ue_exists) pdu (b \<or> b1, st1) = (b', st')" by simp
    from process_ce_props[OF p] obtain e1 where
      p1: "b1 \<longleftrightarrow> valid_bsr (CE c)" "conres_id st1 = conres_id st"
          "trace st1 = trace st @ e1" "filter is_rlc_write e1 = []" "filter is_buffer_add e1 = []"
      by blast
    from Cons.IH[OF f] obtain e2 where
      p2: "b' \<longleftrightarrow> (b \<or> b1) \<or> (\<exists>sh \<in> set pdu. valid_bsr sh)" "conres_id st' = conres_id st1"
          "trace st' = trace st1 @ e2" "filter is_rlc_write e2 = []" "filter is_buffer_add e2 = []"
      by blast
    have "\<exists>es. trace st' = trace st @ es \<and> filter is_rlc_write es = [] \<and> filter is_buffer_add es = []"
      by (rule exI[of _ "e1 @ e2"]) (simp add: p1 p2)
    then show ?thesis using p1 p2 CE by auto
  qed
qed

lemma process_pdu_summary:
  assumes ok: "sdu_sizes_ok pdu"
  shows "\<exists>es bsr. trace (process_pdu ue_exists pdu st) = trace st @ es \<and>
     filter is_rlc_write es =
        map (\<lambda>sh. Rlc_write_pdu (rnti st) (sdu_lcid sh) (sdu_payload sh)) (filter delivered pdu) \<and>
     (bsr \<longleftrightarrow> (\<exists>sh \<in> set pdu. valid_bsr sh)) \<and>
     filter is_buffer_add es =
        (let l = lcid_most_data (fold sdu_step pdu \<lparr>ue = st, lcid_most_data = 0, most_data = -99\<rparr>)
         in if \<not> bsr \<and> l > 2 then [Sched_ul_buffer_add (rnti (process_pdu ue_exists pdu st)) l 256] else []) \<and>
     conres_id (process_pdu ue_exists pdu st) =
        conres_id (ue (fold sdu_step pdu \<lparr>ue = st, lcid_most_data = 0, most_data = -99\<rparr>))"
proof -
  let ?s0 = "\<lparr>ue = st, lcid_most_data = 0, most_data = -99\<rparr>"
  let ?s1 = "fold sdu_step pdu ?s0"
  obtain b st2 where f2: "fold (ce_step ue_exists) pdu (False, ue ?s1) = (b, st2)"
    by (cases "fold (ce_step ue_exists) pdu (False, ue ?s1)")
  from sdu_pass_trace[OF ok, of ?s0] obtain e1 where
    e1: "trace (ue ?s1) = trace st @ e1"
        "filter is_rlc_write e1 =
           map (\<lambda>sh. Rlc_write_pdu (rnti st) (sdu_lcid sh) (sdu_payload sh)) (filter delivered pdu)"
        "filter is_buffer_add e1 = []" by auto
  from ce_pass[OF f2] obtain e2 where
    e2: "b \<longleftrightarrow> (\<exists>sh \<in> set pdu. valid_bsr sh)" "conres_id st2 = conres_id (ue ?s1)"
        "trace st2 = trace (ue ?s1) @ e2" "filter is_rlc_write e2 = []" "filter is_buffer_add e2 = []"
    by auto
  let ?fin = "if \<not> b \<and> lcid_most_data ?s1 > 2
              then [Sched_ul_buffer_add (rnti st2) (lcid_most_data ?s1) 256] else []"
  have pp: "process_pdu ue_exists pdu st = emit ?fin st2"
    by (simp add: process_pdu_def f2 emit_def)
  have r: "rnti (process_pdu ue_exists pdu st) = rnti st2" by (simp add: pp)
  show ?thesis
    apply (rule exI[of _ "e1 @ e2 @ ?fin"])
    apply (rule exI[of _ b])
    apply (simp add: r Let_def)
    apply (simp add: pp e1 e2)
    done
qed

text \<open>
  C9. Processing a C-RNTI control element is never reported as a BSR. When the carried old
  RNTI is not known to the scheduler, the user state is left as it was (same RNTI, same
  contention-resolution identity), \<^verbatim>\<open>rrc->upd_user\<close> is not invoked, and the only
  effect is one error log. The RNTI is reassigned and \<^verbatim>\<open>rrc->upd_user\<close> is invoked
  exactly when \<^verbatim>\<open>sched->ue_exists(old_rnti)\<close> holds.
\<close>

theorem process_ce_crnti_guard:
  assumes "process_ce ue_exists (CRNTI old_rnti) st = (is_bsr, st')"
  shows "\<not> is_bsr \<and>
         (\<not> ue_exists old_rnti \<longrightarrow>
            rnti st' = rnti st \<and> conres_id st' = conres_id st \<and>
            new_effects st st' = [Log_error ''Updating user C-RNTI: rnti already released'']) \<and>
         (ue_exists old_rnti \<longrightarrow>
            rnti st' = old_rnti \<and> conres_id st' = conres_id st \<and>
            new_effects st st' = [Rrc_upd_user (rnti st) old_rnti])"
  using assms by (auto simp: new_effects_def split: if_splits)

theorem process_ce_crnti_guard_witness:
  "process_ce (ue_db [70]) (CRNTI 71) \<lparr>rnti = 72, conres_id = [0,0,0,0,0,0,0,0], trace = []\<rparr> =
     (False, \<lparr>rnti = 72, conres_id = [0,0,0,0,0,0,0,0],
              trace = [Log_error ''Updating user C-RNTI: rnti already released'']\<rparr>) \<and>
   \<not> ue_db [70] 71 \<and>
   rnti \<lparr>rnti = 72, conres_id = [0,0,0,0,0,0,0,0],
         trace = [Log_error ''Updating user C-RNTI: rnti already released'']\<rparr> = 72"
proof -
  let ?st = "\<lparr>rnti = 72, conres_id = [0,0,0,0,0,0,0,0], trace = []\<rparr>"
  let ?st' = "\<lparr>rnti = 72, conres_id = [0,0,0,0,0,0,0,0],
              trace = [Log_error ''Updating user C-RNTI: rnti already released'']\<rparr>"
  have e: "process_ce (ue_db [70]) (CRNTI 71) ?st = (False, ?st')"
    by (simp add: ue_db_def emit_def)
  have n: "\<not> ue_db [70] 71" by (simp add: ue_db_def)
  from process_ce_crnti_guard[OF e] n have "rnti ?st' = rnti ?st" by blast
  then have "rnti ?st' = 72" by simp
  with e n show ?thesis by blast
qed

text \<open>
  C6. For a PDU whose SDU payloads are shorter than \<open>2 ^ 24\<close> bytes, the calls of
  \<^verbatim>\<open>rlc->write_pdu\<close> made by \<^verbatim>\<open>process_pdu\<close> are, in order, exactly the SDU
  subheaders of the PDU except those with LCID 0 whose payload bytes are all zero, each
  with the RNTI the user had on entry, its LCID and its payload. The contention-resolution
  identity afterwards holds, in its first six bytes, the first six payload bytes in
  reverse order of the last delivered LCID-0 SDU of at least six bytes (its last two bytes
  are kept); without such an SDU it is unchanged.
\<close>

theorem process_pdu_sdu_delivery:
  assumes "sdu_sizes_ok pdu" and "length (conres_id st) = 8"
  shows "filter is_rlc_write (new_effects st (process_pdu ue_exists pdu st)) =
           map (\<lambda>sh. Rlc_write_pdu (rnti st) (sdu_lcid sh) (sdu_payload sh)) (filter delivered pdu) \<and>
         conres_id (process_pdu ue_exists pdu st) =
           (if filter carries_conres pdu = [] then conres_id st
            else rev (take 6 (sdu_payload (last (filter carries_conres pdu)))) @
                 drop 6 (conres_id st))"
proof -
  let ?s0 = "\<lparr>ue = st, lcid_most_data = 0, most_data = -99\<rparr>"
  from process_pdu_summary[OF assms(1), of ue_exists st] obtain es where
    es: "trace (process_pdu ue_exists pdu st) = trace st @ es"
        "filter is_rlc_write es =
           map (\<lambda>sh. Rlc_write_pdu (rnti st) (sdu_lcid sh) (sdu_payload sh)) (filter delivered pdu)"
        "conres_id (process_pdu ue_exists pdu st) = conres_id (ue (fold sdu_step pdu ?s0))"
    by blast
  have n: "new_effects st (process_pdu ue_exists pdu st) = es"
    by (simp add: new_effects_def es(1))
  have "length (conres_id (ue ?s0)) = 8" using assms(2) by simp
  from sdu_pass_conres[OF assms(1) this, THEN conjunct1] es(3)
  have c: "conres_id (process_pdu ue_exists pdu st) =
           (if filter carries_conres pdu = [] then conres_id st
            else rev (take 6 (sdu_payload (last (filter carries_conres pdu)))) @
                 drop 6 (conres_id st))" by simp
  show ?thesis using n es(2) c by simp
qed

theorem process_pdu_sdu_delivery_witness:
  "sdu_sizes_ok [SDU 0 [0,0], SDU 0 [1,2,3,4,5,6,7], SDU 3 [9]] \<and>
   length (conres_id \<lparr>rnti = 70, conres_id = [10,11,12,13,14,15,16,17], trace = []\<rparr>) = 8 \<and>
   filter is_rlc_write (new_effects \<lparr>rnti = 70, conres_id = [10,11,12,13,14,15,16,17], trace = []\<rparr>
      (process_pdu (ue_db []) [SDU 0 [0,0], SDU 0 [1,2,3,4,5,6,7], SDU 3 [9]]
         \<lparr>rnti = 70, conres_id = [10,11,12,13,14,15,16,17], trace = []\<rparr>)) =
     [Rlc_write_pdu 70 0 [1,2,3,4,5,6,7], Rlc_write_pdu 70 3 [9]] \<and>
   conres_id (process_pdu (ue_db []) [SDU 0 [0,0], SDU 0 [1,2,3,4,5,6,7], SDU 3 [9]]
         \<lparr>rnti = 70, conres_id = [10,11,12,13,14,15,16,17], trace = []\<rparr>) =
     [6,5,4,3,2,1,16,17]"
proof -
  let ?pdu = "[SDU 0 [0,0], SDU 0 [1,2,3,4,5,6,7], SDU 3 [9]]"
  let ?st = "\<lparr>rnti = 70, conres_id = [10,11,12,13,14,15,16,17], trace = []\<rparr>"
  have h1: "sdu_sizes_ok ?pdu" by (simp add: sdu_sizes_ok_def)
  have h2: "length (conres_id ?st) = 8" by simp
  have d: "filter delivered ?pdu = [SDU 0 [1,2,3,4,5,6,7], SDU 3 [9]]"
    by (simp add: all_zero_def)
  have c: "filter carries_conres ?pdu = [SDU 0 [1,2,3,4,5,6,7]]"
    by (simp add: all_zero_def MAC_CE_CONTRES_LEN_def)
  note t = process_pdu_sdu_delivery[OF h1 h2, of "ue_db []", unfolded d c]
  from t have "filter is_rlc_write (new_effects ?st (process_pdu (ue_db []) ?pdu ?st)) =
     [Rlc_write_pdu 70 0 [1,2,3,4,5,6,7], Rlc_write_pdu 70 3 [9]] \<and>
     conres_id (process_pdu (ue_db []) ?pdu ?st) = [6,5,4,3,2,1,16,17]"
    by simp
  with h1 h2 show ?thesis by blast
qed

text \<open>
  C3 (amended). For a PDU whose SDU payloads are shorter than \<open>2 ^ 24\<close> bytes:
  \<^verbatim>\<open>process_pdu\<close> calls \<^verbatim>\<open>sched->ul_buffer_add\<close> at most once. It makes no such
  call when a BSR control element was accepted (a long BSR, or a short or truncated BSR
  whose group index is not -1), nor when the PDU has no SDU. Otherwise the PDU has a
  first SDU of largest payload; when the LCID of that SDU is greater than 2 exactly one
  synthetic BSR of 256 bytes is added for that LCID under the RNTI the user has after the
  control elements were processed, and when it is at most 2 none is added. The size of
  the payload plays no part.
\<close>

theorem process_pdu_synthetic_bsr:
  assumes "sdu_sizes_ok pdu"
  shows "((\<exists>sh \<in> set pdu. valid_bsr sh) \<longrightarrow>
            filter is_buffer_add (new_effects st (process_pdu ue_exists pdu st)) = []) \<and>
         ((\<forall>sh \<in> set pdu. \<not> is_sdu sh) \<longrightarrow>
            filter is_buffer_add (new_effects st (process_pdu ue_exists pdu st)) = []) \<and>
         ((\<exists>sh \<in> set pdu. is_sdu sh) \<longrightarrow> (\<exists>k. first_largest pdu k)) \<and>
         (first_largest pdu i \<longrightarrow>
            filter is_buffer_add (new_effects st (process_pdu ue_exists pdu st)) =
              (if (\<exists>sh \<in> set pdu. valid_bsr sh) \<or> sdu_lcid (pdu ! i) \<le> 2 then []
               else [Sched_ul_buffer_add (rnti (process_pdu ue_exists pdu st))
                       (sdu_lcid (pdu ! i)) 256]))"
proof -
  let ?s0 = "\<lparr>ue = st, lcid_most_data = 0, most_data = -99\<rparr>"
  let ?l = "lcid_most_data (fold sdu_step pdu ?s0)"
  let ?new = "filter is_buffer_add (new_effects st (process_pdu ue_exists pdu st))"
  from process_pdu_summary[OF assms, of ue_exists st] obtain es bsr where
    es: "trace (process_pdu ue_exists pdu st) = trace st @ es"
        "bsr \<longleftrightarrow> (\<exists>sh \<in> set pdu. valid_bsr sh)"
        "filter is_buffer_add es =
          (let l = ?l in if \<not> bsr \<and> l > 2
             then [Sched_ul_buffer_add (rnti (process_pdu ue_exists pdu st)) l 256] else [])"
    by blast
  have n: "new_effects st (process_pdu ue_exists pdu st) = es"
    by (simp add: new_effects_def es(1))
  have new: "?new = (if \<not> (\<exists>sh \<in> set pdu. valid_bsr sh) \<and> ?l > 2
             then [Sched_ul_buffer_add (rnti (process_pdu ue_exists pdu st)) ?l 256] else [])"
    using es(2,3) by (simp add: n Let_def)
  have m: "if \<exists>sh \<in> set pdu. is_sdu sh
         then \<exists>k. first_largest pdu k \<and> ?l = sdu_lcid (pdu ! k) \<and>
                  most_data (fold sdu_step pdu ?s0) = int (length (sdu_payload (pdu ! k)))
         else ?l = 0 \<and> most_data (fold sdu_step pdu ?s0) = -99"
    by (rule sdu_pass_most[OF assms]) simp_all
  have m1: "\<exists>k. first_largest pdu k \<and> ?l = sdu_lcid (pdu ! k)" if "\<exists>sh \<in> set pdu. is_sdu sh"
  proof -
    from m that have "\<exists>k. first_largest pdu k \<and> ?l = sdu_lcid (pdu ! k) \<and>
                  most_data (fold sdu_step pdu ?s0) = int (length (sdu_payload (pdu ! k)))"
      by (simp only: if_True)
    then show ?thesis by blast
  qed
  have m2: "?l = 0" if "\<forall>sh \<in> set pdu. \<not> is_sdu sh"
  proof -
    from that have "\<not> (\<exists>sh \<in> set pdu. is_sdu sh)" by blast
    with m show ?thesis by (simp only: if_False)
  qed
  have A: "(\<exists>sh \<in> set pdu. valid_bsr sh) \<longrightarrow> ?new = []" using new by simp
  have B: "(\<forall>sh \<in> set pdu. \<not> is_sdu sh) \<longrightarrow> ?new = []"
  proof
    assume "\<forall>sh \<in> set pdu. \<not> is_sdu sh"
    then have "?l = 0" by (rule m2)
    then show "?new = []" using new by simp
  qed
  have C: "(\<exists>sh \<in> set pdu. is_sdu sh) \<longrightarrow> (\<exists>k. first_largest pdu k)" using m1 by blast
  have D: "first_largest pdu i \<longrightarrow> ?new =
              (if (\<exists>sh \<in> set pdu. valid_bsr sh) \<or> sdu_lcid (pdu ! i) \<le> 2 then []
               else [Sched_ul_buffer_add (rnti (process_pdu ue_exists pdu st))
                       (sdu_lcid (pdu ! i)) 256])"
  proof
    assume fl: "first_largest pdu i"
    then have "\<exists>sh \<in> set pdu. is_sdu sh" by (auto simp: first_largest_def)
    from m1[OF this] obtain k where k: "first_largest pdu k" "?l = sdu_lcid (pdu ! k)" by blast
    then have "k = i" using fl by (simp add: first_largest_unique)
    then have "?l = sdu_lcid (pdu ! i)" using k by simp
    then show "?new =
              (if (\<exists>sh \<in> set pdu. valid_bsr sh) \<or> sdu_lcid (pdu ! i) \<le> 2 then []
               else [Sched_ul_buffer_add (rnti (process_pdu ue_exists pdu st))
                       (sdu_lcid (pdu ! i)) 256])"
      using new by (simp add: not_le)
  qed
  show ?thesis using A B C D by blast
qed

theorem process_pdu_synthetic_bsr_witness:
  "sdu_sizes_ok [SDU 1 [7], SDU 3 [1,2], CE PADDING] \<and>
   first_largest [SDU 1 [7], SDU 3 [1,2], CE PADDING] 1 \<and>
   filter is_buffer_add (new_effects \<lparr>rnti = 70, conres_id = [0,0,0,0,0,0,0,0], trace = []\<rparr>
      (process_pdu (ue_db []) [SDU 1 [7], SDU 3 [1,2], CE PADDING]
         \<lparr>rnti = 70, conres_id = [0,0,0,0,0,0,0,0], trace = []\<rparr>)) =
     [Sched_ul_buffer_add 70 3 256]"
proof -
  let ?pdu = "[SDU 1 [7], SDU 3 [1,2], CE PADDING]"
  let ?st = "\<lparr>rnti = 70, conres_id = [0,0,0,0,0,0,0,0], trace = []\<rparr>"
  have h1: "sdu_sizes_ok ?pdu" by (simp add: sdu_sizes_ok_def)
  have h2: "first_largest ?pdu 1" by (simp add: first_largest_def less_Suc_eq numeral_eq_Suc)
  have r: "rnti (process_pdu (ue_db []) ?pdu ?st) = 70" by (simp add: pdu_eval)
  from process_pdu_synthetic_bsr[OF h1, of ?st "ue_db []" 1] h2
  have "filter is_buffer_add (new_effects ?st (process_pdu (ue_db []) ?pdu ?st)) =
          (if (\<exists>sh \<in> set ?pdu. valid_bsr sh) \<or> sdu_lcid (?pdu ! 1) \<le> 2 then []
           else [Sched_ul_buffer_add (rnti (process_pdu (ue_db []) ?pdu ?st)) (sdu_lcid (?pdu ! 1)) 256])"
    by blast
  then have "filter is_buffer_add (new_effects ?st (process_pdu (ue_db []) ?pdu ?st)) =
     [Sched_ul_buffer_add 70 3 256]" by (simp add: r)
  with h1 h2 show ?thesis by blast
qed

text \<open>
  The claim C3 as stated fails: one byte on LCID 3 and no BSR, and a synthetic BSR is
  added although no LCID carried more than 64 bytes.
\<close>

theorem process_pdu_synthetic_bsr_counterexample:
  "length [1::u8] \<le> 64 \<and>
   trace (process_pdu (ue_db []) [SDU 3 [1]]
            \<lparr>rnti = 70, conres_id = [0,0,0,0,0,0,0,0], trace = []\<rparr>) =
     [Rlc_write_pdu 70 3 [1], Sched_ul_buffer_add 70 3 256]"
  by (simp add: pdu_eval)

section \<open>PUCCH resource allocation\<close>

lemmas grid_eval = small_cell_def no_handles_def sr_allocate_def cqi_allocate_def sr_free_def
  cqi_free_def find_least_users_def scan_cell_def max_users_of_def grid_upd_def log_rrc_def
  Let_def upt_rec

lemma least_inv_step:
  assumes "least_inv g P st"
  shows "least_inv g (insert (a, b) P) (scan_cell g a b st)"
proof -
  obtain i j m where st: "st = (i, j, m)" by (cases st)
  show ?thesis
  proof (cases "g ! a ! b < m")
    case True
    then have "\<forall>(c, d) \<in> P. g ! a ! b \<le> g ! c ! d"
      using assms st by (auto simp: least_inv_def)
    with True show ?thesis by (auto simp: least_inv_def scan_cell_def st)
  next
    case False
    then show ?thesis using assms st by (auto simp: least_inv_def scan_cell_def)
  qed
qed

lemma least_inv_row:
  assumes "least_inv g P st"
  shows "least_inv g (P \<union> {(i, j) | j. j < n}) (fold (scan_cell g i) [0..<n] st)"
proof (induction n)
  case 0 then show ?case using assms by simp
next
  case (Suc n)
  have eq: "P \<union> {(i, j) | j. j < Suc n} = insert (i, n) (P \<union> {(i, j) | j. j < n})"
    by (auto simp: less_Suc_eq)
  have f: "fold (scan_cell g i) [0..<Suc n] st = scan_cell g i n (fold (scan_cell g i) [0..<n] st)"
    by simp
  show ?case unfolding eq f by (rule least_inv_step[OF Suc])
qed

lemma u32_le_max: "(w::u32) \<le> 4294967295"
proof -
  have "unat w < 2 ^ 32" using unsigned_less[of w, where 'a=nat] by simp
  then show ?thesis by (simp add: word_le_nat_alt)
qed

lemma least_inv_all:
  "least_inv g {(i, j). i < N \<and> j < n}
     (fold (\<lambda>i. fold (scan_cell g i) [0..<n]) [0..<N] (0, 0, 4294967295))"
proof (induction N)
  case 0 then show ?case by (simp add: least_inv_def u32_le_max)
next
  case (Suc N)
  have eq: "{(i, j). i < Suc N \<and> j < n} = {(i, j). i < N \<and> j < n} \<union> {(N, j) | j. j < n}"
    by (auto simp: less_Suc_eq)
  have f: "fold (\<lambda>i. fold (scan_cell g i) [0..<n]) [0..<Suc N] x =
           fold (scan_cell g N) [0..<n] (fold (\<lambda>i. fold (scan_cell g i) [0..<n]) [0..<N] x)" for x
    by simp
  show ?case unfolding eq f by (rule least_inv_row[OF Suc])
qed

lemma find_least_users_props:
  assumes "find_least_users g nprb nsf = (i, j, m)"
  shows "(\<forall>a < unat nprb. \<forall>b < unat nsf. g ! i ! j \<le> g ! a ! b) \<and>
         ((i < unat nprb \<and> j < unat nsf) \<or> (i = 0 \<and> j = 0))"
proof -
  have "least_inv g {(a, b). a < unat nprb \<and> b < unat nsf} (i, j, m)"
    using least_inv_all[of g "unat nprb" "unat nsf"] assms by (simp add: find_least_users_def)
  then have a: "\<forall>(a, b) \<in> {(a, b). a < unat nprb \<and> b < unat nsf}. m \<le> g ! a ! b"
    and b: "g ! i ! j \<le> m"
    and c: "(i, j) \<in> {(a, b). a < unat nprb \<and> b < unat nsf} \<or> (i, j) = (0, 0)"
    by (simp_all add: least_inv_def)
  from a b have "\<forall>a < unat nprb. \<forall>b < unat nsf. g ! i ! j \<le> g ! a ! b"
    by (auto intro: order_trans)
  with c show ?thesis by auto
qed

lemma find_least_users_in_grid:
  assumes "grid_ok cfg g" and "find_least_users g (cfg_nof_prb cfg) (cfg_nof_subframes cfg) = (i, j, m)"
  shows "i < length g \<and> j < length (g ! i) \<and> j < length (cfg_sf_mapping cfg) \<and> i < 100"
proof -
  from find_least_users_props[OF assms(2)]
  have r: "(i < unat (cfg_nof_prb cfg) \<and> j < unat (cfg_nof_subframes cfg)) \<or> (i = 0 \<and> j = 0)" by blast
  have g0: "0 < length g" "0 < length (cfg_sf_mapping cfg)" using assms(1) by (simp_all add: grid_ok_def)
  then have "g ! 0 \<in> set g" by simp
  then have r0: "0 < length (g ! 0)" using assms(1) by (auto simp: grid_ok_def)
  from r show ?thesis
  proof
    assume a: "i < unat (cfg_nof_prb cfg) \<and> j < unat (cfg_nof_subframes cfg)"
    then have il: "i < length g" "i < 100" using assms(1) by (simp_all add: grid_ok_def)
    then have "g ! i \<in> set g" by simp
    then have "unat (cfg_nof_subframes cfg) \<le> length (g ! i)" using assms(1) by (auto simp: grid_ok_def)
    moreover have "unat (cfg_nof_subframes cfg) \<le> length (cfg_sf_mapping cfg)"
      using assms(1) by (simp add: grid_ok_def)
    ultimately show ?thesis using a il by simp
  next
    assume "i = 0 \<and> j = 0"
    then show ?thesis using g0 r0 by simp
  qed
qed

lemma max_users_of_value:
  "unat (max_users_of p) =
     (12 * (if cell_cp p = SRSLTE_CP_NORM then 3 else 2)) div unat (to_number (delta_pucch_shift p))"
  by (cases "delta_pucch_shift p") (simp_all add: max_users_of_def)

lemma max_users_of_le: "unat (max_users_of p) \<le> 36"
  by (cases "delta_pucch_shift p") (simp_all add: max_users_of_value)

lemma unat_ucast_u32_u8: "unat (w::u32) < 256 \<Longrightarrow> unat (ucast w :: u8) = unat w"
  by (simp add: unsigned_ucast_eq take_bit_nat_eq_self)

lemma unat_ucast_u32_u16: "unat (w::u32) < 65536 \<Longrightarrow> unat (ucast w :: u16) = unat w"
  by (simp add: unsigned_ucast_eq take_bit_nat_eq_self)

lemma unat_ucast_u8_u16: "unat (ucast (b::u8) :: u16) = unat b"
proof -
  have "unat b < 2 ^ 16" using unsigned_less[of b, where 'a=nat] by simp
  then show ?thesis by (simp add: unsigned_ucast_eq take_bit_nat_eq_self)
qed

lemma sr_index_value:
  fixes period sf :: u32
  assumes "period = 5 \<or> period = 10 \<or> period = 20 \<or> period = 40 \<or> period = 80"
    and "sf < period"
  shows "unat (ucast (period - 5 + sf) :: u8) = unat period - 5 + unat sf"
proof -
  have lt: "unat sf < unat period" using assms(2) by (simp add: word_less_nat_alt)
  have p: "5 \<le> unat period \<and> unat period \<le> 80" using assms(1) by auto
  have "(5::u32) \<le> period" using p by (simp add: word_le_nat_alt)
  then have s: "unat (period - 5) = unat period - 5" by (simp add: unat_sub)
  have "unat (period - 5) + unat sf < 160" using s lt p by linarith
  then have "unat (period - 5) + unat sf < 2 ^ LENGTH(32)" by simp
  then have "unat (period - 5 + sf) = unat period - 5 + unat sf"
    using s by (simp add: unat_add_lem[THEN iffD1])
  moreover have "unat period - 5 + unat sf < 256" using lt p by linarith
  ultimately show ?thesis by (simp add: unat_ucast_u32_u8)
qed

lemma n_pucch_value:
  fixes mu users :: u32 and ncs :: u8
  assumes "i < 100" and "unat mu \<le> 36" and "users \<le> mu"
  shows "unat ((if ncs \<noteq> 0 then ucast (word_of_nat i * mu + users) + ucast ncs
                else ucast (word_of_nat i * mu + users)) :: u16) =
         i * unat mu + unat users + unat ncs"
proof -
  have ui: "unat (word_of_nat i :: u32) = i" using assms(1) by (simp add: unat_of_nat)
  have us: "unat users \<le> 36" using assms(2,3) by (simp add: word_le_nat_alt)
  have im: "i * unat mu \<le> 99 * 36" using assms(1,2) by (intro mult_le_mono) simp_all
  have "unat (word_of_nat i :: u32) * unat mu < 2 ^ LENGTH(32)" using im ui by simp
  then have m: "unat (word_of_nat i * mu) = i * unat mu"
    using ui by (simp add: unat_mult_lem[THEN iffD1])
  have "unat (word_of_nat i * mu) + unat users < 2 ^ LENGTH(32)" using m im us by simp
  then have a: "unat (word_of_nat i * mu + users) = i * unat mu + unat users"
    using m by (simp add: unat_add_lem[THEN iffD1])
  have a16: "unat (ucast (word_of_nat i * mu + users) :: u16) = i * unat mu + unat users"
    using a im us by (simp add: unat_ucast_u32_u16)
  have n: "unat ncs \<le> 255" using unsigned_less[of ncs, where 'a=nat] by simp
  have "unat (ucast (word_of_nat i * mu + users) :: u16) + unat (ucast ncs :: u16) < 2 ^ LENGTH(16)"
    using a16 im us n by (simp add: unat_ucast_u8_u16)
  then have b: "unat ((ucast (word_of_nat i * mu + users) :: u16) + ucast ncs) =
        i * unat mu + unat users + unat ncs"
    using a16 by (simp add: unat_add_lem[THEN iffD1] unat_ucast_u8_u16)
  show ?thesis
  proof (cases "ncs = 0")
    case True then show ?thesis using a16 by simp
  next
    case False then show ?thesis using b by simp
  qed
qed

lemma unat_inc_small:
  fixes w :: u32
  assumes "unat w \<le> 36"
  shows "unat (w + 1) = unat w + 1"
proof -
  have "unat w + unat (1::u32) < 2 ^ LENGTH(32)" using assms by simp
  then show ?thesis by (simp add: unat_add_lem[THEN iffD1])
qed

lemma grid_upd_nth:
  assumes "i < length g" and "j < length (g ! i)"
  shows "grid_upd g i j v ! a ! b = (if a = i \<and> b = j then v else g ! a ! b)"
  using assms by (auto simp: grid_upd_def nth_list_update)

lemma grid_upd_restore:
  assumes "i < length g" and "j < length (g ! i)"
  shows "grid_upd (grid_upd g i j v) i j (g ! i ! j) = g"
  using assms by (simp add: grid_upd_def list_update_same_conv)

lemma log_rrc_simps [simp]:
  "sr_sched (log_rrc m p) = sr_sched p" "cqi_sched (log_rrc m p) = cqi_sched p"
  "rrc_log (log_rrc m p) = rrc_log p @ [m]"
  by (simp_all add: log_rrc_def)

lemma sr_allocate_unfold:
  assumes sel: "find_least_users (sr_sched p) (cfg_nof_prb (sr_cfg p)) (cfg_nof_subframes (sr_cfg p)) = (i, j, m)"
  shows "sr_allocate period (p, u) =
     (if sr_sched p ! i ! j > max_users_of p
      then (Inl ''Not enough PUCCH resources to allocate Scheduling Request'',
               log_rrc (Rrc_error ''Not enough PUCCH resources to allocate Scheduling Request'') p, u)
      else if period \<noteq> 5 \<and> period \<noteq> 10 \<and> period \<noteq> 20 \<and> period \<noteq> 40 \<and> period \<noteq> 80
      then (Inl ''Invalid SchedulingRequest period'',
               log_rrc (Rrc_error ''Invalid SchedulingRequest period'') p, u)
      else if \<not> cfg_sf_mapping (sr_cfg p) ! j < period
      then (Inl ''Allocating SR: invalid sf_idx'',
               log_rrc (Rrc_error ''Allocating SR: invalid sf_idx'') p, u)
      else (Inr (ucast (period - 5 + cfg_sf_mapping (sr_cfg p) ! j),
                 (if ncs_an p \<noteq> 0
                  then ucast (word_of_nat i * max_users_of p + sr_sched p ! i ! j) + ucast (ncs_an p)
                  else ucast (word_of_nat i * max_users_of p + sr_sched p ! i ! j))),
            log_rrc (Rrc_info ''Allocated SR resources'')
              (p\<lparr>sr_sched := grid_upd (sr_sched p) i j (sr_sched p ! i ! j + 1)\<rparr>),
            u\<lparr>sr_allocated := True, sr_sched_prb_idx := i, sr_sched_sf_idx := j,
              sr_I := ucast (ucast (period - 5 + cfg_sf_mapping (sr_cfg p) ! j) :: u8),
              sr_N_pucch := ucast (if ncs_an p \<noteq> 0
                  then ucast (word_of_nat i * max_users_of p + sr_sched p ! i ! j) + ucast (ncs_an p)
                  else (ucast (word_of_nat i * max_users_of p + sr_sched p ! i ! j) :: u16))\<rparr>))"
  unfolding sr_allocate_def by (simp only: sel prod.case Let_def)

lemma cqi_allocate_unfold:
  assumes sel: "find_least_users (cqi_sched p) (cfg_nof_prb (cqi_cfg p)) (cfg_nof_subframes (cqi_cfg p)) = (i, j, m)"
  shows "\<exists>pmi n. cqi_allocate period (p, u) =
     (if cqi_sched p ! i ! j > max_users_of p
      then (Inl ''Not enough PUCCH resources to allocate Scheduling Request'',
               log_rrc (Rrc_error ''Not enough PUCCH resources to allocate Scheduling Request'') p, u)
      else if period \<noteq> 2 \<and> period \<noteq> 5 \<and> period \<noteq> 10 \<and> period \<noteq> 20 \<and> period \<noteq> 40 \<and>
                 period \<noteq> 80 \<and> period \<noteq> 160 \<and> period \<noteq> 32 \<and> period \<noteq> 64 \<and> period \<noteq> 128
      then (Inl ''Invalid CQI Report period'',
               log_rrc (Rrc_error ''Invalid CQI Report period'') p, u)
      else if \<not> cfg_sf_mapping (cqi_cfg p) ! j < period
      then (Inl ''Allocating SR: invalid sf_idx'',
               log_rrc (Rrc_error ''Allocating SR: invalid sf_idx'') p, u)
      else (Inr (pmi, n),
            log_rrc (Rrc_info ''Allocated CQI resources'')
              (p\<lparr>cqi_sched := grid_upd (cqi_sched p) i j (cqi_sched p ! i ! j + 1)\<rparr>),
            u\<lparr>cqi_allocated := True, cqi_sched_prb_idx := i, cqi_sched_sf_idx := j,
              cqi_idx := ucast pmi, cqi_pucch := ucast n\<rparr>))"
  unfolding cqi_allocate_def
  apply (simp only: sel prod.case Let_def)
  apply (rule exI, rule exI, rule refl)
  done

lemma sr_allocate_cases:
  assumes sel: "find_least_users (sr_sched p) (cfg_nof_prb (sr_cfg p)) (cfg_nof_subframes (sr_cfg p)) = (i, j, m)"
    and res: "sr_allocate period (p, u) = (r, p', u')"
  shows "((sr_sched p ! i ! j > max_users_of p \<or>
           (period \<noteq> 5 \<and> period \<noteq> 10 \<and> period \<noteq> 20 \<and> period \<noteq> 40 \<and> period \<noteq> 80) \<or>
           \<not> cfg_sf_mapping (sr_cfg p) ! j < period) \<and>
          (\<exists>e. r = Inl e \<and> p' = log_rrc (Rrc_error e) p) \<and> u' = u) \<or>
         (\<not> sr_sched p ! i ! j > max_users_of p \<and>
          \<not> (period \<noteq> 5 \<and> period \<noteq> 10 \<and> period \<noteq> 20 \<and> period \<noteq> 40 \<and> period \<noteq> 80) \<and>
          cfg_sf_mapping (sr_cfg p) ! j < period \<and>
          r = Inr (ucast (period - 5 + cfg_sf_mapping (sr_cfg p) ! j),
                 (if ncs_an p \<noteq> 0
                  then ucast (word_of_nat i * max_users_of p + sr_sched p ! i ! j) + ucast (ncs_an p)
                  else ucast (word_of_nat i * max_users_of p + sr_sched p ! i ! j))) \<and>
          sr_sched p' = grid_upd (sr_sched p) i j (sr_sched p ! i ! j + 1) \<and>
          cqi_sched p' = cqi_sched p \<and>
          sr_allocated u' \<and> sr_sched_prb_idx u' = i \<and> sr_sched_sf_idx u' = j)"
proof -
  define bad where "bad \<longleftrightarrow> period \<noteq> 5 \<and> period \<noteq> 10 \<and> period \<noteq> 20 \<and> period \<noteq> 40 \<and> period \<noteq> 80"
  define full where "full \<longleftrightarrow> sr_sched p ! i ! j > max_users_of p"
  define late where "late \<longleftrightarrow> \<not> cfg_sf_mapping (sr_cfg p) ! j < period"
  note u = sr_allocate_unfold[OF sel, of period u, folded bad_def full_def late_def]
  have goal: "((full \<or> bad \<or> late) \<and> (\<exists>e. r = Inl e \<and> p' = log_rrc (Rrc_error e) p) \<and> u' = u) \<or>
         (\<not> full \<and> \<not> bad \<and> \<not> late \<and>
          r = Inr (ucast (period - 5 + cfg_sf_mapping (sr_cfg p) ! j),
                 (if ncs_an p \<noteq> 0
                  then ucast (word_of_nat i * max_users_of p + sr_sched p ! i ! j) + ucast (ncs_an p)
                  else ucast (word_of_nat i * max_users_of p + sr_sched p ! i ! j))) \<and>
          sr_sched p' = grid_upd (sr_sched p) i j (sr_sched p ! i ! j + 1) \<and>
          cqi_sched p' = cqi_sched p \<and>
          sr_allocated u' \<and> sr_sched_prb_idx u' = i \<and> sr_sched_sf_idx u' = j)"
  proof (cases "full \<or> bad \<or> late")
    case True
    then have "\<exists>e. sr_allocate period (p, u) = (Inl e, log_rrc (Rrc_error e) p, u)"
      unfolding u by (cases full; cases bad; cases late) simp_all
    then obtain e where "r = Inl e" "p' = log_rrc (Rrc_error e) p" "u' = u" using res by auto
    then show ?thesis using True by blast
  next
    case False
    then have "sr_allocate period (p, u) = (Inr (ucast (period - 5 + cfg_sf_mapping (sr_cfg p) ! j),
                 (if ncs_an p \<noteq> 0
                  then ucast (word_of_nat i * max_users_of p + sr_sched p ! i ! j) + ucast (ncs_an p)
                  else ucast (word_of_nat i * max_users_of p + sr_sched p ! i ! j))),
            log_rrc (Rrc_info ''Allocated SR resources'')
              (p\<lparr>sr_sched := grid_upd (sr_sched p) i j (sr_sched p ! i ! j + 1)\<rparr>),
            u\<lparr>sr_allocated := True, sr_sched_prb_idx := i, sr_sched_sf_idx := j,
              sr_I := ucast (ucast (period - 5 + cfg_sf_mapping (sr_cfg p) ! j) :: u8),
              sr_N_pucch := ucast (if ncs_an p \<noteq> 0
                  then ucast (word_of_nat i * max_users_of p + sr_sched p ! i ! j) + ucast (ncs_an p)
                  else (ucast (word_of_nat i * max_users_of p + sr_sched p ! i ! j) :: u16))\<rparr>)"
      unfolding u by simp
    with res have "r = Inr (ucast (period - 5 + cfg_sf_mapping (sr_cfg p) ! j),
                 (if ncs_an p \<noteq> 0
                  then ucast (word_of_nat i * max_users_of p + sr_sched p ! i ! j) + ucast (ncs_an p)
                  else ucast (word_of_nat i * max_users_of p + sr_sched p ! i ! j)))"
       "p' = log_rrc (Rrc_info ''Allocated SR resources'')
              (p\<lparr>sr_sched := grid_upd (sr_sched p) i j (sr_sched p ! i ! j + 1)\<rparr>)"
       "u' = u\<lparr>sr_allocated := True, sr_sched_prb_idx := i, sr_sched_sf_idx := j,
              sr_I := ucast (ucast (period - 5 + cfg_sf_mapping (sr_cfg p) ! j) :: u8),
              sr_N_pucch := ucast (if ncs_an p \<noteq> 0
                  then ucast (word_of_nat i * max_users_of p + sr_sched p ! i ! j) + ucast (ncs_an p)
                  else (ucast (word_of_nat i * max_users_of p + sr_sched p ! i ! j) :: u16))\<rparr>"
      by simp_all
    then show ?thesis using False by simp
  qed
  show ?thesis using goal unfolding bad_def full_def late_def by (simp only: not_not)
qed

lemma cqi_allocate_cases:
  assumes sel: "find_least_users (cqi_sched p) (cfg_nof_prb (cqi_cfg p)) (cfg_nof_subframes (cqi_cfg p)) = (i, j, m)"
    and res: "cqi_allocate period (p, u) = (r, p', u')"
  shows "((\<exists>e. r = Inl e \<and> p' = log_rrc (Rrc_error e) p) \<and> u' = u) \<or>
         (\<not> cqi_sched p ! i ! j > max_users_of p \<and>
          (\<exists>x. r = Inr x) \<and>
          cqi_sched p' = grid_upd (cqi_sched p) i j (cqi_sched p ! i ! j + 1) \<and>
          sr_sched p' = sr_sched p \<and>
          cqi_allocated u' \<and> cqi_sched_prb_idx u' = i \<and> cqi_sched_sf_idx u' = j)"
proof -
  define bad where "bad \<longleftrightarrow> period \<noteq> 2 \<and> period \<noteq> 5 \<and> period \<noteq> 10 \<and> period \<noteq> 20 \<and> period \<noteq> 40 \<and>
                 period \<noteq> 80 \<and> period \<noteq> 160 \<and> period \<noteq> 32 \<and> period \<noteq> 64 \<and> period \<noteq> 128"
  define full where "full \<longleftrightarrow> cqi_sched p ! i ! j > max_users_of p"
  define late where "late \<longleftrightarrow> \<not> cfg_sf_mapping (cqi_cfg p) ! j < period"
  from cqi_allocate_unfold[OF sel, of period u, folded bad_def full_def late_def]
  obtain pmi n where u: "cqi_allocate period (p, u) =
     (if full
      then (Inl ''Not enough PUCCH resources to allocate Scheduling Request'',
               log_rrc (Rrc_error ''Not enough PUCCH resources to allocate Scheduling Request'') p, u)
      else if bad
      then (Inl ''Invalid CQI Report period'',
               log_rrc (Rrc_error ''Invalid CQI Report period'') p, u)
      else if late
      then (Inl ''Allocating SR: invalid sf_idx'',
               log_rrc (Rrc_error ''Allocating SR: invalid sf_idx'') p, u)
      else (Inr (pmi, n),
            log_rrc (Rrc_info ''Allocated CQI resources'')
              (p\<lparr>cqi_sched := grid_upd (cqi_sched p) i j (cqi_sched p ! i ! j + 1)\<rparr>),
            u\<lparr>cqi_allocated := True, cqi_sched_prb_idx := i, cqi_sched_sf_idx := j,
              cqi_idx := ucast pmi, cqi_pucch := ucast n\<rparr>))" by blast
  have goal: "((\<exists>e. r = Inl e \<and> p' = log_rrc (Rrc_error e) p) \<and> u' = u) \<or>
         (\<not> full \<and> (\<exists>x. r = Inr x) \<and>
          cqi_sched p' = grid_upd (cqi_sched p) i j (cqi_sched p ! i ! j + 1) \<and>
          sr_sched p' = sr_sched p \<and>
          cqi_allocated u' \<and> cqi_sched_prb_idx u' = i \<and> cqi_sched_sf_idx u' = j)"
  proof (cases "full \<or> bad \<or> late")
    case True
    then have "\<exists>e. cqi_allocate period (p, u) = (Inl e, log_rrc (Rrc_error e) p, u)"
      unfolding u by (cases full; cases bad; cases late) simp_all
    then obtain e where "r = Inl e" "p' = log_rrc (Rrc_error e) p" "u' = u" using res by auto
    then show ?thesis by blast
  next
    case False
    then have "cqi_allocate period (p, u) = (Inr (pmi, n),
            log_rrc (Rrc_info ''Allocated CQI resources'')
              (p\<lparr>cqi_sched := grid_upd (cqi_sched p) i j (cqi_sched p ! i ! j + 1)\<rparr>),
            u\<lparr>cqi_allocated := True, cqi_sched_prb_idx := i, cqi_sched_sf_idx := j,
              cqi_idx := ucast pmi, cqi_pucch := ucast n\<rparr>)"
      unfolding u by simp
    with res have "r = Inr (pmi, n)"
       "p' = log_rrc (Rrc_info ''Allocated CQI resources'')
              (p\<lparr>cqi_sched := grid_upd (cqi_sched p) i j (cqi_sched p ! i ! j + 1)\<rparr>)"
       "u' = u\<lparr>cqi_allocated := True, cqi_sched_prb_idx := i, cqi_sched_sf_idx := j,
              cqi_idx := ucast pmi, cqi_pucch := ucast n\<rparr>"
      by simp_all
    then show ?thesis using False by simp
  qed
  show ?thesis using goal unfolding full_def .
qed

lemma uint_dec:
  fixes w :: u32
  assumes "0 < w"
  shows "uint (w - 1) = uint w - 1"
proof -
  have nz: "w \<noteq> 0" using assms by auto
  then have a: "unat (w - 1) = unat w - 1" by (rule unat_minus_one)
  have pos: "0 < unat w" using nz by (simp add: unat_gt_0)
  have "uint (w - 1) = int (unat (w - 1))" by (rule uint_nat)
  also have "\<dots> = int (unat w - 1)" by (simp only: a)
  also have "\<dots> = int (unat w) - 1" using pos by linarith
  also have "\<dots> = uint w - 1" by (simp only: uint_nat)
  finally show ?thesis .
qed

lemma sr_free_grid:
  "sr_sched (fst (sr_free (p, u))) =
     (if sr_allocated u \<and> 0 < sr_sched p ! sr_sched_prb_idx u ! sr_sched_sf_idx u
      then grid_upd (sr_sched p) (sr_sched_prb_idx u) (sr_sched_sf_idx u)
             (sr_sched p ! sr_sched_prb_idx u ! sr_sched_sf_idx u - 1)
      else sr_sched p)"
  "cqi_sched (fst (sr_free (p, u))) = cqi_sched p"
  "snd (sr_free (p, u)) = u"
  by (simp_all add: sr_free_def)

lemma cqi_free_grid:
  "cqi_sched (fst (cqi_free (p, u))) =
     (if cqi_allocated u \<and> 0 < cqi_sched p ! cqi_sched_prb_idx u ! cqi_sched_sf_idx u
      then grid_upd (cqi_sched p) (cqi_sched_prb_idx u) (cqi_sched_sf_idx u)
             (cqi_sched p ! cqi_sched_prb_idx u ! cqi_sched_sf_idx u - 1)
      else cqi_sched p)"
  "sr_sched (fst (cqi_free (p, u))) = sr_sched p"
  "snd (cqi_free (p, u)) = u"
  by (simp_all add: cqi_free_def)

lemma free_after_inc:
  fixes mu :: u32
  assumes "i < length g" and "j < length (g ! i)" and "g ! i ! j \<le> mu" and "unat mu \<le> 36"
  shows "0 < grid_upd g i j (g ! i ! j + 1) ! i ! j \<and>
         grid_upd (grid_upd g i j (g ! i ! j + 1)) i j (grid_upd g i j (g ! i ! j + 1) ! i ! j - 1) = g"
proof -
  define c where "c = g ! i ! j"
  have v: "grid_upd g i j (c + 1) ! i ! j = c + 1"
    using assms(1,2) by (simp add: grid_upd_nth)
  have "unat c \<le> 36" using assms(3,4) by (simp add: word_le_nat_alt c_def)
  then have inc: "unat (c + 1) = unat c + 1" by (rule unat_inc_small)
  have "c + 1 \<noteq> 0"
  proof
    assume "c + 1 = 0"
    then have "unat (c + 1) = 0" by simp
    with inc show False by simp
  qed
  then have pos: "0 < c + 1" by (simp add: word_greater_zero_iff)
  have "c + 1 - 1 = c" by simp
  then have r: "grid_upd (grid_upd g i j (c + 1)) i j (c + 1 - 1) = g"
    using grid_upd_restore[OF assms(1,2), of "c + 1"] by (simp only: c_def)
  have "0 < grid_upd g i j (c + 1) ! i ! j \<and>
         grid_upd (grid_upd g i j (c + 1)) i j (grid_upd g i j (c + 1) ! i ! j - 1) = g"
    unfolding v using pos r by (rule conjI)
  then show ?thesis by (simp only: c_def)
qed

text \<open>
  C1 (amended). For a call of \<^verbatim>\<open>sr_allocate\<close> with a period in {5, 10, 20, 40, 80} on
  a grid whose arrays cover the configured loop bounds: the slot \<open>(i, j)\<close> found by the
  search holds the fewest users among all slots with \<open>i < nof_prb\<close> and
  \<open>j < nof_subframes\<close>; \<open>max_users\<close> is \<open>12 * (3 for the normal cyclic prefix, else 2)
  / delta_pucch_shift\<close>. The call fails, leaving the grid and the user as they were, when
  that slot holds more than \<open>max_users\<close> users or when \<open>sf_mapping[j]\<close> is not smaller
  than the period. When the slot holds fewer than \<open>max_users\<close> users and
  \<open>sf_mapping[j] < period\<close>, the call succeeds with
  \<open>I_sr = period - 5 + sf_mapping[j]\<close> and
  \<open>n_pucch = i * max_users + users[i][j] + ncs_an\<close>, the counter of the slot is
  incremented by one, every other counter is unchanged, and the user records the slot.
\<close>

theorem sr_allocate_least_used:
  assumes ok: "grid_ok (sr_cfg p) (sr_sched p)"
    and per: "period = 5 \<or> period = 10 \<or> period = 20 \<or> period = 40 \<or> period = 80"
    and sel: "find_least_users (sr_sched p) (cfg_nof_prb (sr_cfg p))
                (cfg_nof_subframes (sr_cfg p)) = (i, j, m)"
    and res: "sr_allocate period (p, u) = (r, p', u')"
  shows "(\<forall>a < unat (cfg_nof_prb (sr_cfg p)). \<forall>b < unat (cfg_nof_subframes (sr_cfg p)).
            sr_sched p ! i ! j \<le> sr_sched p ! a ! b) \<and>
         unat (max_users_of p) =
            (12 * (if cell_cp p = SRSLTE_CP_NORM then 3 else 2)) div
              unat (to_number (delta_pucch_shift p)) \<and>
         (sr_sched p ! i ! j > max_users_of p \<or> \<not> cfg_sf_mapping (sr_cfg p) ! j < period \<longrightarrow>
            (\<exists>e. r = Inl e) \<and> sr_sched p' = sr_sched p \<and> u' = u) \<and>
         (sr_sched p ! i ! j < max_users_of p \<and> cfg_sf_mapping (sr_cfg p) ! j < period \<longrightarrow>
            (\<exists>I N. r = Inr (I, N) \<and>
               unat I = unat period - 5 + unat (cfg_sf_mapping (sr_cfg p) ! j) \<and>
               unat N = i * unat (max_users_of p) + unat (sr_sched p ! i ! j) + unat (ncs_an p)) \<and>
            (\<forall>a b. unat (sr_sched p' ! a ! b) =
                     unat (sr_sched p ! a ! b) + (if a = i \<and> b = j then 1 else 0)) \<and>
            sr_allocated u' \<and> sr_sched_prb_idx u' = i \<and> sr_sched_sf_idx u' = j)"
proof -
  let ?g = "sr_sched p"
  let ?mu = "max_users_of p"
  let ?sf = "cfg_sf_mapping (sr_cfg p) ! j"
  note cases = sr_allocate_cases[OF sel res]
  from find_least_users_props[OF sel]
  have A: "\<forall>a < unat (cfg_nof_prb (sr_cfg p)). \<forall>b < unat (cfg_nof_subframes (sr_cfg p)).
            ?g ! i ! j \<le> ?g ! a ! b" by blast
  from find_least_users_in_grid[OF ok sel]
  have ij: "i < length ?g" "j < length (?g ! i)" "i < 100" by simp_all
  have B: "unat ?mu = (12 * (if cell_cp p = SRSLTE_CP_NORM then 3 else 2)) div
              unat (to_number (delta_pucch_shift p))" by (rule max_users_of_value)
  have C: "?g ! i ! j > ?mu \<or> \<not> ?sf < period \<longrightarrow>
            (\<exists>e. r = Inl e) \<and> sr_sched p' = ?g \<and> u' = u"
  proof
    assume "?g ! i ! j > ?mu \<or> \<not> ?sf < period"
    with cases have "(\<exists>e. r = Inl e \<and> p' = log_rrc (Rrc_error e) p) \<and> u' = u" by blast
    then show "(\<exists>e. r = Inl e) \<and> sr_sched p' = ?g \<and> u' = u" by auto
  qed
  have D: "?g ! i ! j < ?mu \<and> ?sf < period \<longrightarrow>
            (\<exists>I N. r = Inr (I, N) \<and> unat I = unat period - 5 + unat ?sf \<and>
               unat N = i * unat ?mu + unat (?g ! i ! j) + unat (ncs_an p)) \<and>
            (\<forall>a b. unat (sr_sched p' ! a ! b) =
                     unat (?g ! a ! b) + (if a = i \<and> b = j then 1 else 0)) \<and>
            sr_allocated u' \<and> sr_sched_prb_idx u' = i \<and> sr_sched_sf_idx u' = j"
  proof
    assume h: "?g ! i ! j < ?mu \<and> ?sf < period"
    then have le: "?g ! i ! j \<le> ?mu" and nfull: "\<not> ?g ! i ! j > ?mu" by auto
    from cases nfull h per
    have s: "r = Inr (ucast (period - 5 + ?sf),
                 (if ncs_an p \<noteq> 0
                  then ucast (word_of_nat i * ?mu + ?g ! i ! j) + ucast (ncs_an p)
                  else ucast (word_of_nat i * ?mu + ?g ! i ! j)))"
        "sr_sched p' = grid_upd ?g i j (?g ! i ! j + 1)"
        "sr_allocated u'" "sr_sched_prb_idx u' = i" "sr_sched_sf_idx u' = j"
      by blast+
    have I: "unat (ucast (period - 5 + ?sf) :: u8) = unat period - 5 + unat ?sf"
      using per h by (simp add: sr_index_value)
    have N: "unat ((if ncs_an p \<noteq> 0
                  then ucast (word_of_nat i * ?mu + ?g ! i ! j) + ucast (ncs_an p)
                  else ucast (word_of_nat i * ?mu + ?g ! i ! j)) :: u16) =
             i * unat ?mu + unat (?g ! i ! j) + unat (ncs_an p)"
      by (rule n_pucch_value[OF ij(3) max_users_of_le le])
    have "unat (?g ! i ! j) \<le> 36"
      using le max_users_of_le[of p] by (simp add: word_le_nat_alt)
    then have inc: "unat (?g ! i ! j + 1) = unat (?g ! i ! j) + 1" by (rule unat_inc_small)
    have G: "\<forall>a b. unat (sr_sched p' ! a ! b) =
                     unat (?g ! a ! b) + (if a = i \<and> b = j then 1 else 0)"
      using inc by (simp add: s(2) grid_upd_nth[OF ij(1,2)])
    show "(\<exists>I N. r = Inr (I, N) \<and> unat I = unat period - 5 + unat ?sf \<and>
               unat N = i * unat ?mu + unat (?g ! i ! j) + unat (ncs_an p)) \<and>
            (\<forall>a b. unat (sr_sched p' ! a ! b) =
                     unat (?g ! a ! b) + (if a = i \<and> b = j then 1 else 0)) \<and>
            sr_allocated u' \<and> sr_sched_prb_idx u' = i \<and> sr_sched_sf_idx u' = j"
      using s(1,3,4,5) I N G by blast
  qed
  show ?thesis using A B C D by (intro conjI)
qed

theorem sr_allocate_least_used_witness:
  "grid_ok (sr_cfg (small_cell 3 1 2 [1, 11] [[1, 0]])) (sr_sched (small_cell 3 1 2 [1, 11] [[1, 0]])) \<and>
   find_least_users (sr_sched (small_cell 3 1 2 [1, 11] [[1, 0]])) 1 2 = (0, 1, 0) \<and>
   (\<exists>I N. fst (sr_allocate 20 (small_cell 3 1 2 [1, 11] [[1, 0]], no_handles)) = Inr (I, N) \<and>
      unat I = 26 \<and> unat N = 3) \<and>
   unat (sr_sched (fst (snd (sr_allocate 20 (small_cell 3 1 2 [1, 11] [[1, 0]], no_handles)))) ! 0 ! 1) = 1"
proof -
  let ?p = "small_cell 3 1 2 [1, 11] [[1, 0]]"
  let ?r = "sr_allocate 20 (?p, no_handles)"
  have ok: "grid_ok (sr_cfg ?p) (sr_sched ?p)" by (simp add: grid_ok_def small_cell_def)
  have per: "(20::u32) = 5 \<or> (20::u32) = 10 \<or> (20::u32) = 20 \<or> (20::u32) = 40 \<or> (20::u32) = 80" by simp
  have sel: "find_least_users (sr_sched ?p) (cfg_nof_prb (sr_cfg ?p))
                (cfg_nof_subframes (sr_cfg ?p)) = (0, 1, 0)"
    by (simp add: small_cell_def find_least_users_def scan_cell_def upt_rec)
  have res: "?r = (fst ?r, fst (snd ?r), snd (snd ?r))" by simp
  have pre: "sr_sched ?p ! 0 ! 1 < max_users_of ?p \<and> cfg_sf_mapping (sr_cfg ?p) ! 1 < 20"
    by (simp add: small_cell_def max_users_of_def)
  have vals: "unat (20::u32) - 5 + unat (cfg_sf_mapping (sr_cfg ?p) ! 1) = 26"
     "0 * unat (max_users_of ?p) + unat (sr_sched ?p ! 0 ! 1) + unat (ncs_an ?p) = 3"
     "unat (sr_sched ?p ! 0 ! 1) = 0"
    by (simp_all add: small_cell_def max_users_of_def)
  note t = sr_allocate_least_used[OF ok per sel res]
  from t pre have a: "\<exists>I N. fst ?r = Inr (I, N) \<and>
               unat I = unat (20::u32) - 5 + unat (cfg_sf_mapping (sr_cfg ?p) ! 1) \<and>
               unat N = 0 * unat (max_users_of ?p) + unat (sr_sched ?p ! 0 ! 1) + unat (ncs_an ?p)"
    by blast
  from t pre have "\<forall>a b. unat (sr_sched (fst (snd ?r)) ! a ! b) =
                     unat (sr_sched ?p ! a ! b) + (if a = 0 \<and> b = 1 then 1 else 0)" by blast
  then have "unat (sr_sched (fst (snd ?r)) ! 0 ! 1) =
                     unat (sr_sched ?p ! 0 ! 1) + (if (0::nat) = 0 \<and> (1::nat) = 1 then 1 else 0)"
    by blast
  then have b: "unat (sr_sched (fst (snd ?r)) ! 0 ! 1) = 1" unfolding vals(3) by simp
  have sel': "find_least_users (sr_sched ?p) 1 2 = (0, 1, 0)"
    using sel by (simp add: small_cell_def)
  have a': "\<exists>I N. fst ?r = Inr (I, N) \<and> unat I = 26 \<and> unat N = 3"
    using a by (simp only: vals(1) vals(2))
  show ?thesis using ok sel' a' b by blast
qed

text \<open>
  The claim C1 as stated fails: period 20 with subframe offsets 1, 11, 21, 31 and one user
  in each of the first two slots. The least used slot has offset 21, and the call fails
  although that slot holds no user.
\<close>

theorem sr_allocate_least_used_counterexample:
  "sr_sched (small_cell 0 1 4 [1, 11, 21, 31] [[1, 1, 0, 0]]) ! 0 ! 2 <
      max_users_of (small_cell 0 1 4 [1, 11, 21, 31] [[1, 1, 0, 0]]) \<and>
   fst (sr_allocate 20 (small_cell 0 1 4 [1, 11, 21, 31] [[1, 1, 0, 0]], no_handles)) =
      Inl ''Allocating SR: invalid sf_idx''"
  by (simp add: grid_eval)

text \<open>
  C4 (amended). After a successful \<^verbatim>\<open>sr_allocate\<close> (or \<^verbatim>\<open>cqi_allocate\<close>), one call
  of \<^verbatim>\<open>sr_free\<close> (or \<^verbatim>\<open>cqi_free\<close>) returns the grid to its value before the
  allocation. A free by a user that never allocated changes nothing. A free by a user
  that holds a handle lowers the owning counter by one when it is positive and leaves it
  at zero otherwise; it never clears the user's flag, so every further call does the same
  again: the guard tests only whether the user ever allocated.
\<close>

theorem pucch_free_after_allocate:
  assumes ok_sr: "grid_ok (sr_cfg p) (sr_sched p)"
    and ok_cqi: "grid_ok (cqi_cfg p) (cqi_sched p)"
  shows "(sr_allocate period (p, u) = (Inr x, p1, u1) \<longrightarrow>
            sr_sched (fst (sr_free (p1, u1))) = sr_sched p) \<and>
         (cqi_allocate period (p, u) = (Inr y, p2, u2) \<longrightarrow>
            cqi_sched (fst (cqi_free (p2, u2))) = cqi_sched p) \<and>
         (\<not> sr_allocated u \<longrightarrow> sr_free (p, u) = (p, u)) \<and>
         (\<not> cqi_allocated u \<longrightarrow> cqi_free (p, u) = (p, u)) \<and>
         (sr_allocated u \<and> sr_handle_ok (p, u) \<longrightarrow>
            unat (sr_sched (fst (sr_free (p, u))) ! sr_sched_prb_idx u ! sr_sched_sf_idx u) =
              unat (sr_sched p ! sr_sched_prb_idx u ! sr_sched_sf_idx u) - 1) \<and>
         (cqi_allocated u \<and> cqi_handle_ok (p, u) \<longrightarrow>
            unat (cqi_sched (fst (cqi_free (p, u))) ! cqi_sched_prb_idx u ! cqi_sched_sf_idx u) =
              unat (cqi_sched p ! cqi_sched_prb_idx u ! cqi_sched_sf_idx u) - 1) \<and>
         snd (sr_free (p, u)) = u \<and> snd (cqi_free (p, u)) = u"
proof -
  have A: "sr_allocate period (p, u) = (Inr x, p1, u1) \<longrightarrow>
            sr_sched (fst (sr_free (p1, u1))) = sr_sched p"
  proof
    assume res: "sr_allocate period (p, u) = (Inr x, p1, u1)"
    obtain i j m where sel: "find_least_users (sr_sched p) (cfg_nof_prb (sr_cfg p))
                (cfg_nof_subframes (sr_cfg p)) = (i, j, m)"
      by (cases "find_least_users (sr_sched p) (cfg_nof_prb (sr_cfg p)) (cfg_nof_subframes (sr_cfg p))")
    from sr_allocate_cases[OF sel res]
    have s: "\<not> sr_sched p ! i ! j > max_users_of p"
        "sr_sched p1 = grid_upd (sr_sched p) i j (sr_sched p ! i ! j + 1)"
        "sr_allocated u1" "sr_sched_prb_idx u1 = i" "sr_sched_sf_idx u1 = j"
      by auto
    from find_least_users_in_grid[OF ok_sr sel]
    have ij: "i < length (sr_sched p)" "j < length (sr_sched p ! i)" by simp_all
    have le: "sr_sched p ! i ! j \<le> max_users_of p" using s(1) by (simp add: not_less)
    from free_after_inc[OF ij le max_users_of_le]
    show "sr_sched (fst (sr_free (p1, u1))) = sr_sched p"
      by (simp add: sr_free_grid s)
  qed
  have B: "cqi_allocate period (p, u) = (Inr y, p2, u2) \<longrightarrow>
            cqi_sched (fst (cqi_free (p2, u2))) = cqi_sched p"
  proof
    assume res: "cqi_allocate period (p, u) = (Inr y, p2, u2)"
    obtain i j m where sel: "find_least_users (cqi_sched p) (cfg_nof_prb (cqi_cfg p))
                (cfg_nof_subframes (cqi_cfg p)) = (i, j, m)"
      by (cases "find_least_users (cqi_sched p) (cfg_nof_prb (cqi_cfg p)) (cfg_nof_subframes (cqi_cfg p))")
    from cqi_allocate_cases[OF sel res]
    have s: "\<not> cqi_sched p ! i ! j > max_users_of p"
        "cqi_sched p2 = grid_upd (cqi_sched p) i j (cqi_sched p ! i ! j + 1)"
        "cqi_allocated u2" "cqi_sched_prb_idx u2 = i" "cqi_sched_sf_idx u2 = j"
      by auto
    from find_least_users_in_grid[OF ok_cqi sel]
    have ij: "i < length (cqi_sched p)" "j < length (cqi_sched p ! i)" by simp_all
    have le: "cqi_sched p ! i ! j \<le> max_users_of p" using s(1) by (simp add: not_less)
    from free_after_inc[OF ij le max_users_of_le]
    show "cqi_sched (fst (cqi_free (p2, u2))) = cqi_sched p"
      by (simp add: cqi_free_grid s)
  qed
  have C: "\<not> sr_allocated u \<longrightarrow> sr_free (p, u) = (p, u)" by (simp add: sr_free_def)
  have D: "\<not> cqi_allocated u \<longrightarrow> cqi_free (p, u) = (p, u)" by (simp add: cqi_free_def)
  have E: "sr_allocated u \<and> sr_handle_ok (p, u) \<longrightarrow>
            unat (sr_sched (fst (sr_free (p, u))) ! sr_sched_prb_idx u ! sr_sched_sf_idx u) =
              unat (sr_sched p ! sr_sched_prb_idx u ! sr_sched_sf_idx u) - 1"
  proof
    assume h: "sr_allocated u \<and> sr_handle_ok (p, u)"
    then have ij: "sr_sched_prb_idx u < length (sr_sched p)"
        "sr_sched_sf_idx u < length (sr_sched p ! sr_sched_prb_idx u)"
      by (simp_all add: sr_handle_ok_def)
    show "unat (sr_sched (fst (sr_free (p, u))) ! sr_sched_prb_idx u ! sr_sched_sf_idx u) =
              unat (sr_sched p ! sr_sched_prb_idx u ! sr_sched_sf_idx u) - 1"
    proof (cases "0 < sr_sched p ! sr_sched_prb_idx u ! sr_sched_sf_idx u")
      case True
      then have "sr_sched p ! sr_sched_prb_idx u ! sr_sched_sf_idx u \<noteq> 0" by auto
      then have "unat (sr_sched p ! sr_sched_prb_idx u ! sr_sched_sf_idx u - 1) =
                 unat (sr_sched p ! sr_sched_prb_idx u ! sr_sched_sf_idx u) - 1"
        by (rule unat_minus_one)
      then show ?thesis using True h by (simp add: sr_free_grid grid_upd_nth[OF ij])
    next
      case False
      then have "sr_sched p ! sr_sched_prb_idx u ! sr_sched_sf_idx u = 0"
        by (simp add: word_greater_zero_iff)
      then show ?thesis by (simp add: sr_free_grid)
    qed
  qed
  have F: "cqi_allocated u \<and> cqi_handle_ok (p, u) \<longrightarrow>
            unat (cqi_sched (fst (cqi_free (p, u))) ! cqi_sched_prb_idx u ! cqi_sched_sf_idx u) =
              unat (cqi_sched p ! cqi_sched_prb_idx u ! cqi_sched_sf_idx u) - 1"
  proof
    assume h: "cqi_allocated u \<and> cqi_handle_ok (p, u)"
    then have ij: "cqi_sched_prb_idx u < length (cqi_sched p)"
        "cqi_sched_sf_idx u < length (cqi_sched p ! cqi_sched_prb_idx u)"
      by (simp_all add: cqi_handle_ok_def)
    show "unat (cqi_sched (fst (cqi_free (p, u))) ! cqi_sched_prb_idx u ! cqi_sched_sf_idx u) =
              unat (cqi_sched p ! cqi_sched_prb_idx u ! cqi_sched_sf_idx u) - 1"
    proof (cases "0 < cqi_sched p ! cqi_sched_prb_idx u ! cqi_sched_sf_idx u")
      case True
      then have "cqi_sched p ! cqi_sched_prb_idx u ! cqi_sched_sf_idx u \<noteq> 0" by auto
      then have "unat (cqi_sched p ! cqi_sched_prb_idx u ! cqi_sched_sf_idx u - 1) =
                 unat (cqi_sched p ! cqi_sched_prb_idx u ! cqi_sched_sf_idx u) - 1"
        by (rule unat_minus_one)
      then show ?thesis using True h by (simp add: cqi_free_grid grid_upd_nth[OF ij])
    next
      case False
      then have "cqi_sched p ! cqi_sched_prb_idx u ! cqi_sched_sf_idx u = 0"
        by (simp add: word_greater_zero_iff)
      then show ?thesis by (simp add: cqi_free_grid)
    qed
  qed
  have G: "snd (sr_free (p, u)) = u" "snd (cqi_free (p, u)) = u"
    by (simp_all add: sr_free_grid cqi_free_grid)
  show ?thesis using A B C D E F G by (intro conjI)
qed

theorem pucch_free_after_allocate_witness:
  "grid_ok (sr_cfg (small_cell 0 1 1 [1] [[0]])) (sr_sched (small_cell 0 1 1 [1] [[0]])) \<and>
   grid_ok (cqi_cfg (small_cell 0 1 1 [1] [[0]])) (cqi_sched (small_cell 0 1 1 [1] [[0]])) \<and>
   fst (sr_allocate 20 (small_cell 0 1 1 [1] [[0]], no_handles)) = Inr (16, 0) \<and>
   sr_sched (fst (snd (sr_allocate 20 (small_cell 0 1 1 [1] [[0]], no_handles)))) = [[1]] \<and>
   sr_sched (fst (sr_free (snd (sr_allocate 20 (small_cell 0 1 1 [1] [[0]], no_handles))))) = [[0]]"
proof -
  let ?p = "small_cell 0 1 1 [1] [[0]]"
  let ?r = "sr_allocate 20 (?p, no_handles)"
  have ok1: "grid_ok (sr_cfg ?p) (sr_sched ?p)" by (simp add: grid_ok_def small_cell_def)
  have ok2: "grid_ok (cqi_cfg ?p) (cqi_sched ?p)" by (simp add: grid_ok_def small_cell_def)
  have f: "fst ?r = Inr (16, 0)" by (simp add: grid_eval)
  have g1: "sr_sched (fst (snd ?r)) = [[1]]" by (simp add: grid_eval)
  have e: "?r = (Inr (16, 0), fst (snd ?r), snd (snd ?r))"
    using f by (metis prod.collapse)
  from pucch_free_after_allocate[OF ok1 ok2, of 20 no_handles "(16, 0)" "fst (snd ?r)" "snd (snd ?r)"] e
  have "sr_sched (fst (sr_free (fst (snd ?r), snd (snd ?r)))) = sr_sched ?p" by blast
  then have "sr_sched (fst (sr_free (snd ?r))) = [[0]]" by (simp add: small_cell_def)
  with ok1 ok2 f g1 show ?thesis by blast
qed

text \<open>
  The claim C4 as stated fails: two users allocate in a grid of one slot (counter 2); the
  first user frees twice and the counter is 0 although the second user still holds the
  slot.
\<close>

theorem pucch_free_after_allocate_counterexample:
  "sr_sched (fst (snd (sr_allocate 20
       (fst (snd (sr_allocate 20 (small_cell 0 1 1 [1] [[0]], no_handles))), no_handles)))) = [[2]] \<and>
   sr_sched (fst (sr_free (sr_free
      (fst (snd (sr_allocate 20
         (fst (snd (sr_allocate 20 (small_cell 0 1 1 [1] [[0]], no_handles))), no_handles))),
       snd (snd (sr_allocate 20 (small_cell 0 1 1 [1] [[0]], no_handles))))))) = [[0]]"
  by (simp add: grid_eval)

text \<open>
  C8. The counters of both grids never wrap around. Read as integers, a counter after
  \<^verbatim>\<open>sr_free\<close> or \<^verbatim>\<open>cqi_free\<close> is its value before, minus one only for the slot of
  the user's handle and only when that value was positive; on a zero counter the free
  leaves the grid as it is and logs a warning. After \<^verbatim>\<open>sr_allocate\<close> or
  \<^verbatim>\<open>cqi_allocate\<close> every counter is its value before or that value plus one.
\<close>

theorem pucch_counters_never_wrap:
  assumes "sr_handle_ok (p, u)" and "cqi_handle_ok (p, u)"
  shows "(\<forall>a b. uint (sr_sched (fst (sr_free (p, u))) ! a ! b) =
            uint (sr_sched p ! a ! b) -
              (if sr_allocated u \<and> a = sr_sched_prb_idx u \<and> b = sr_sched_sf_idx u \<and>
                  0 < uint (sr_sched p ! a ! b) then 1 else 0)) \<and>
         (\<forall>a b. uint (cqi_sched (fst (cqi_free (p, u))) ! a ! b) =
            uint (cqi_sched p ! a ! b) -
              (if cqi_allocated u \<and> a = cqi_sched_prb_idx u \<and> b = cqi_sched_sf_idx u \<and>
                  0 < uint (cqi_sched p ! a ! b) then 1 else 0)) \<and>
         (sr_allocated u \<and> sr_sched p ! sr_sched_prb_idx u ! sr_sched_sf_idx u = 0 \<longrightarrow>
            sr_sched (fst (sr_free (p, u))) = sr_sched p \<and>
            Rrc_warning ''Removing SR resources: no users in time-frequency slot''
              \<in> set (rrc_log (fst (sr_free (p, u))))) \<and>
         (cqi_allocated u \<and> cqi_sched p ! cqi_sched_prb_idx u ! cqi_sched_sf_idx u = 0 \<longrightarrow>
            cqi_sched (fst (cqi_free (p, u))) = cqi_sched p \<and>
            Rrc_warning ''Removing CQI resources: no users in time-frequency slot''
              \<in> set (rrc_log (fst (cqi_free (p, u))))) \<and>
         (grid_ok (sr_cfg p) (sr_sched p) \<longrightarrow>
            (\<forall>a b. uint (sr_sched (fst (snd (sr_allocate period (p, u)))) ! a ! b) = uint (sr_sched p ! a ! b) \<or>
                   uint (sr_sched (fst (snd (sr_allocate period (p, u)))) ! a ! b) = uint (sr_sched p ! a ! b) + 1)) \<and>
         (grid_ok (cqi_cfg p) (cqi_sched p) \<longrightarrow>
            (\<forall>a b. uint (cqi_sched (fst (snd (cqi_allocate period (p, u)))) ! a ! b) = uint (cqi_sched p ! a ! b) \<or>
                   uint (cqi_sched (fst (snd (cqi_allocate period (p, u)))) ! a ! b) = uint (cqi_sched p ! a ! b) + 1))"
proof -
  have pos: "0 < uint w \<longleftrightarrow> 0 < w" for w :: u32 by (simp add: word_less_def)
  have A: "\<forall>a b. uint (sr_sched (fst (sr_free (p, u))) ! a ! b) =
            uint (sr_sched p ! a ! b) -
              (if sr_allocated u \<and> a = sr_sched_prb_idx u \<and> b = sr_sched_sf_idx u \<and>
                  0 < uint (sr_sched p ! a ! b) then 1 else 0)"
  proof (cases "sr_allocated u")
    case False then show ?thesis by (simp add: sr_free_grid)
  next
    case True
    then have ij: "sr_sched_prb_idx u < length (sr_sched p)"
        "sr_sched_sf_idx u < length (sr_sched p ! sr_sched_prb_idx u)"
      using assms(1) by (simp_all add: sr_handle_ok_def)
    show ?thesis using True
      by (auto simp: sr_free_grid grid_upd_nth[OF ij] pos uint_dec)
  qed
  have B: "\<forall>a b. uint (cqi_sched (fst (cqi_free (p, u))) ! a ! b) =
            uint (cqi_sched p ! a ! b) -
              (if cqi_allocated u \<and> a = cqi_sched_prb_idx u \<and> b = cqi_sched_sf_idx u \<and>
                  0 < uint (cqi_sched p ! a ! b) then 1 else 0)"
  proof (cases "cqi_allocated u")
    case False then show ?thesis by (simp add: cqi_free_grid)
  next
    case True
    then have ij: "cqi_sched_prb_idx u < length (cqi_sched p)"
        "cqi_sched_sf_idx u < length (cqi_sched p ! cqi_sched_prb_idx u)"
      using assms(2) by (simp_all add: cqi_handle_ok_def)
    show ?thesis using True
      by (auto simp: cqi_free_grid grid_upd_nth[OF ij] pos uint_dec)
  qed
  have C: "sr_allocated u \<and> sr_sched p ! sr_sched_prb_idx u ! sr_sched_sf_idx u = 0 \<longrightarrow>
            sr_sched (fst (sr_free (p, u))) = sr_sched p \<and>
            Rrc_warning ''Removing SR resources: no users in time-frequency slot''
              \<in> set (rrc_log (fst (sr_free (p, u))))"
    by (simp add: sr_free_def)
  have D: "cqi_allocated u \<and> cqi_sched p ! cqi_sched_prb_idx u ! cqi_sched_sf_idx u = 0 \<longrightarrow>
            cqi_sched (fst (cqi_free (p, u))) = cqi_sched p \<and>
            Rrc_warning ''Removing CQI resources: no users in time-frequency slot''
              \<in> set (rrc_log (fst (cqi_free (p, u))))"
    by (simp add: cqi_free_def)
  have inc: "uint (w + 1) = uint w + 1" if "w \<le> max_users_of p" for w :: u32
  proof -
    have "unat w \<le> 36" using that max_users_of_le[of p] by (simp add: word_le_nat_alt)
    then have "unat (w + 1) = unat w + 1" by (rule unat_inc_small)
    then have "int (unat (w + 1)) = int (unat w) + 1" by simp
    then show ?thesis by (simp only: uint_nat)
  qed
  have E: "grid_ok (sr_cfg p) (sr_sched p) \<longrightarrow>
            (\<forall>a b. uint (sr_sched (fst (snd (sr_allocate period (p, u)))) ! a ! b) = uint (sr_sched p ! a ! b) \<or>
                   uint (sr_sched (fst (snd (sr_allocate period (p, u)))) ! a ! b) = uint (sr_sched p ! a ! b) + 1)"
  proof
    assume ok: "grid_ok (sr_cfg p) (sr_sched p)"
    obtain i j m where sel: "find_least_users (sr_sched p) (cfg_nof_prb (sr_cfg p))
                (cfg_nof_subframes (sr_cfg p)) = (i, j, m)"
      by (cases "find_least_users (sr_sched p) (cfg_nof_prb (sr_cfg p)) (cfg_nof_subframes (sr_cfg p))")
    obtain r p' u' where res: "sr_allocate period (p, u) = (r, p', u')"
      by (cases "sr_allocate period (p, u)")
    from find_least_users_in_grid[OF ok sel]
    have ij: "i < length (sr_sched p)" "j < length (sr_sched p ! i)" by simp_all
    from sr_allocate_cases[OF sel res]
    have "sr_sched p' = sr_sched p \<or>
          (sr_sched p ! i ! j \<le> max_users_of p \<and>
           sr_sched p' = grid_upd (sr_sched p) i j (sr_sched p ! i ! j + 1))"
      by (auto simp: not_less)
    then show "\<forall>a b. uint (sr_sched (fst (snd (sr_allocate period (p, u)))) ! a ! b) = uint (sr_sched p ! a ! b) \<or>
                   uint (sr_sched (fst (snd (sr_allocate period (p, u)))) ! a ! b) = uint (sr_sched p ! a ! b) + 1"
      by (auto simp: res grid_upd_nth[OF ij] inc)
  qed
  have F: "grid_ok (cqi_cfg p) (cqi_sched p) \<longrightarrow>
            (\<forall>a b. uint (cqi_sched (fst (snd (cqi_allocate period (p, u)))) ! a ! b) = uint (cqi_sched p ! a ! b) \<or>
                   uint (cqi_sched (fst (snd (cqi_allocate period (p, u)))) ! a ! b) = uint (cqi_sched p ! a ! b) + 1)"
  proof
    assume ok: "grid_ok (cqi_cfg p) (cqi_sched p)"
    obtain i j m where sel: "find_least_users (cqi_sched p) (cfg_nof_prb (cqi_cfg p))
                (cfg_nof_subframes (cqi_cfg p)) = (i, j, m)"
      by (cases "find_least_users (cqi_sched p) (cfg_nof_prb (cqi_cfg p)) (cfg_nof_subframes (cqi_cfg p))")
    obtain r p' u' where res: "cqi_allocate period (p, u) = (r, p', u')"
      by (cases "cqi_allocate period (p, u)")
    from find_least_users_in_grid[OF ok sel]
    have ij: "i < length (cqi_sched p)" "j < length (cqi_sched p ! i)" by simp_all
    from cqi_allocate_cases[OF sel res]
    have "cqi_sched p' = cqi_sched p \<or>
          (cqi_sched p ! i ! j \<le> max_users_of p \<and>
           cqi_sched p' = grid_upd (cqi_sched p) i j (cqi_sched p ! i ! j + 1))"
      by (auto simp: not_less)
    then show "\<forall>a b. uint (cqi_sched (fst (snd (cqi_allocate period (p, u)))) ! a ! b) = uint (cqi_sched p ! a ! b) \<or>
                   uint (cqi_sched (fst (snd (cqi_allocate period (p, u)))) ! a ! b) = uint (cqi_sched p ! a ! b) + 1"
      by (auto simp: res grid_upd_nth[OF ij] inc)
  qed
  show ?thesis using A B C D E F by (intro conjI)
qed

theorem pucch_counters_never_wrap_witness:
  "sr_handle_ok (small_cell 0 1 1 [1] [[0]], no_handles\<lparr>sr_allocated := True\<rparr>) \<and>
   cqi_handle_ok (small_cell 0 1 1 [1] [[0]], no_handles\<lparr>sr_allocated := True\<rparr>) \<and>
   sr_allocated (no_handles\<lparr>sr_allocated := True\<rparr>) \<and>
   sr_sched (small_cell 0 1 1 [1] [[0]]) ! 0 ! 0 = 0 \<and>
   sr_sched (fst (sr_free (small_cell 0 1 1 [1] [[0]], no_handles\<lparr>sr_allocated := True\<rparr>))) =
     sr_sched (small_cell 0 1 1 [1] [[0]]) \<and>
   Rrc_warning ''Removing SR resources: no users in time-frequency slot''
     \<in> set (rrc_log (fst (sr_free (small_cell 0 1 1 [1] [[0]], no_handles\<lparr>sr_allocated := True\<rparr>))))"
proof -
  let ?p = "small_cell 0 1 1 [1] [[0]]"
  let ?u = "no_handles\<lparr>sr_allocated := True\<rparr>"
  have h1: "sr_handle_ok (?p, ?u)" by (simp add: sr_handle_ok_def small_cell_def no_handles_def)
  have h2: "cqi_handle_ok (?p, ?u)" by (simp add: cqi_handle_ok_def small_cell_def no_handles_def)
  have h3: "sr_allocated ?u \<and> sr_sched ?p ! sr_sched_prb_idx ?u ! sr_sched_sf_idx ?u = 0"
    by (simp add: small_cell_def no_handles_def)
  have h4: "sr_sched ?p ! 0 ! 0 = 0" by (simp add: small_cell_def)
  from pucch_counters_never_wrap[OF h1 h2, of 20] h3
  have "sr_sched (fst (sr_free (?p, ?u))) = sr_sched ?p \<and>
            Rrc_warning ''Removing SR resources: no users in time-frequency slot''
              \<in> set (rrc_log (fst (sr_free (?p, ?u))))" by blast
  with h1 h2 h3 h4 show ?thesis by blast
qed

section \<open>Security algorithms and transaction identifiers\<close>


lemma cipher_switch_supported:
  "cipher_switch v a (algo, False) = (if eea_supported v a then (a, True) else (algo, False))"
  by (cases a) (simp_all add: bitstring_get_def bitstring_length_def)

lemma integ_switch_supported:
  "integ_switch v a (algo, False) = (if eia_supported v a then (a, True) else (algo, False))"
  by (cases a) (simp_all add: bitstring_get_def bitstring_length_def)

lemma cipher_loop_find:
  "cipher_loop v prefs (algo, False) =
     (case find (eea_supported v) prefs of Some a \<Rightarrow> (a, True) | None \<Rightarrow> (algo, False))"
  by (induction prefs) (simp_all add: cipher_switch_supported Let_def)

lemma integ_loop_find:
  "integ_loop v prefs (algo, False) =
     (case find (eia_supported v) prefs of Some a \<Rightarrow> (a, True) | None \<Rightarrow> (algo, False))"
  by (induction prefs) (simp_all add: integ_switch_supported Let_def)

text \<open>
  C5. \<^verbatim>\<open>select_security_algorithms\<close> sets the ciphering algorithm to the first entry of
  the EEA preference list that the user supports (EEA0 counts as always supported, the
  others by their bit of the capability bitmap) and keeps the old one when there is none;
  it sets the integrity algorithm to the first entry of the EIA preference list whose bit
  is set, which is never EIA0, and keeps the old one when there is none. It returns false
  exactly when no entry of the EEA list or no entry of the EIA list matches.
\<close>

theorem select_security_algorithms_first_match:
  assumes "select_security_algorithms s = (ok, s')"
  shows "(case find (eea_supported (encryption_algorithms s)) (eea_preference_list s) of
            Some a \<Rightarrow> cipher_algo s' = a
          | None \<Rightarrow> cipher_algo s' = cipher_algo s) \<and>
         (case find (eia_supported (integrity_protection_algorithms s)) (eia_preference_list s) of
            Some a \<Rightarrow> integ_algo s' = a \<and> a \<noteq> INTEGRITY_ALGORITHM_ID_EIA0
          | None \<Rightarrow> integ_algo s' = integ_algo s) \<and>
         (ok \<longleftrightarrow>
            find (eea_supported (encryption_algorithms s)) (eea_preference_list s) \<noteq> None \<and>
            find (eia_supported (integrity_protection_algorithms s)) (eia_preference_list s) \<noteq> None) \<and>
         (eea_supported (encryption_algorithms s) CIPHERING_ALGORITHM_ID_EEA0) \<and>
         (\<not> ok \<longleftrightarrow>
            (\<forall>a \<in> set (eea_preference_list s). \<not> eea_supported (encryption_algorithms s) a) \<or>
            (\<forall>a \<in> set (eia_preference_list s). \<not> eia_supported (integrity_protection_algorithms s) a))"
proof -
  define fe where "fe = find (eea_supported (encryption_algorithms s)) (eea_preference_list s)"
  define fi where "fi = find (eia_supported (integrity_protection_algorithms s)) (eia_preference_list s)"
  have cl: "cipher_loop (encryption_algorithms s) (eea_preference_list s) (cipher_algo s, False) =
              (case fe of Some a \<Rightarrow> (a, True) | None \<Rightarrow> (cipher_algo s, False))"
    unfolding fe_def by (rule cipher_loop_find)
  have il: "integ_loop (integrity_protection_algorithms s) (eia_preference_list s) (integ_algo s, False) =
              (case fi of Some a \<Rightarrow> (a, True) | None \<Rightarrow> (integ_algo s, False))"
    unfolding fi_def by (rule integ_loop_find)
  have sel: "select_security_algorithms s =
      (fe \<noteq> None \<and> fi \<noteq> None,
       s\<lparr>cipher_algo := (case fe of Some a \<Rightarrow> a | None \<Rightarrow> cipher_algo s),
         integ_algo := (case fi of Some a \<Rightarrow> a | None \<Rightarrow> integ_algo s)\<rparr>)"
    unfolding select_security_algorithms_def cl il
    by (cases fe; cases fi) simp_all
  from assms sel have ok: "ok \<longleftrightarrow> fe \<noteq> None \<and> fi \<noteq> None"
    and c: "cipher_algo s' = (case fe of Some a \<Rightarrow> a | None \<Rightarrow> cipher_algo s)"
    and i: "integ_algo s' = (case fi of Some a \<Rightarrow> a | None \<Rightarrow> integ_algo s)"
    by auto
  have A: "case fe of Some a \<Rightarrow> cipher_algo s' = a | None \<Rightarrow> cipher_algo s' = cipher_algo s"
    using c by (cases fe) simp_all
  have ne: "a \<noteq> INTEGRITY_ALGORITHM_ID_EIA0" if "fi = Some a" for a
  proof -
    from that have "eia_supported (integrity_protection_algorithms s) a"
      unfolding fi_def by (auto simp: find_Some_iff)
    then show ?thesis by auto
  qed
  have B: "case fi of Some a \<Rightarrow> integ_algo s' = a \<and> a \<noteq> INTEGRITY_ALGORITHM_ID_EIA0
                    | None \<Rightarrow> integ_algo s' = integ_algo s"
    using i ne by (cases fi) simp_all
  have D: "eea_supported (encryption_algorithms s) CIPHERING_ALGORITHM_ID_EEA0" by simp
  have fe_none: "fe = None \<longleftrightarrow>
       (\<forall>a \<in> set (eea_preference_list s). \<not> eea_supported (encryption_algorithms s) a)"
    unfolding fe_def by (auto simp: find_None_iff)
  have fi_none: "fi = None \<longleftrightarrow>
       (\<forall>a \<in> set (eia_preference_list s). \<not> eia_supported (integrity_protection_algorithms s) a)"
    unfolding fi_def by (auto simp: find_None_iff)
  have E: "\<not> ok \<longleftrightarrow>
            (\<forall>a \<in> set (eea_preference_list s). \<not> eea_supported (encryption_algorithms s) a) \<or>
            (\<forall>a \<in> set (eia_preference_list s). \<not> eia_supported (integrity_protection_algorithms s) a)"
    using ok fe_none fi_none by blast
  show ?thesis using A B ok D E unfolding fe_def fi_def by (intro conjI)
qed

theorem select_security_algorithms_first_match_witness:
  "select_security_algorithms
     \<lparr>eea_preference_list = [CIPHERING_ALGORITHM_ID_128_EEA2, CIPHERING_ALGORITHM_ID_128_EEA1,
                              CIPHERING_ALGORITHM_ID_EEA0],
      eia_preference_list = [INTEGRITY_ALGORITHM_ID_EIA0, INTEGRITY_ALGORITHM_ID_128_EIA2,
                              INTEGRITY_ALGORITHM_ID_128_EIA1],
      encryption_algorithms = 0x8000, integrity_protection_algorithms = 0xC000,
      cipher_algo = CIPHERING_ALGORITHM_ID_EEA0, integ_algo = INTEGRITY_ALGORITHM_ID_EIA0\<rparr> =
   (True,
     \<lparr>eea_preference_list = [CIPHERING_ALGORITHM_ID_128_EEA2, CIPHERING_ALGORITHM_ID_128_EEA1,
                              CIPHERING_ALGORITHM_ID_EEA0],
      eia_preference_list = [INTEGRITY_ALGORITHM_ID_EIA0, INTEGRITY_ALGORITHM_ID_128_EIA2,
                              INTEGRITY_ALGORITHM_ID_128_EIA1],
      encryption_algorithms = 0x8000, integrity_protection_algorithms = 0xC000,
      cipher_algo = CIPHERING_ALGORITHM_ID_128_EEA1, integ_algo = INTEGRITY_ALGORITHM_ID_128_EIA2\<rparr>) \<and>
   find (eea_supported 0x8000) [CIPHERING_ALGORITHM_ID_128_EEA2, CIPHERING_ALGORITHM_ID_128_EEA1,
                              CIPHERING_ALGORITHM_ID_EEA0] = Some CIPHERING_ALGORITHM_ID_128_EEA1 \<and>
   find (eia_supported 0xC000) [INTEGRITY_ALGORITHM_ID_EIA0, INTEGRITY_ALGORITHM_ID_128_EIA2,
                              INTEGRITY_ALGORITHM_ID_128_EIA1] = Some INTEGRITY_ALGORITHM_ID_128_EIA2"
proof -
  let ?s = "\<lparr>eea_preference_list = [CIPHERING_ALGORITHM_ID_128_EEA2, CIPHERING_ALGORITHM_ID_128_EEA1,
                              CIPHERING_ALGORITHM_ID_EEA0],
      eia_preference_list = [INTEGRITY_ALGORITHM_ID_EIA0, INTEGRITY_ALGORITHM_ID_128_EIA2,
                              INTEGRITY_ALGORITHM_ID_128_EIA1],
      encryption_algorithms = 0x8000, integrity_protection_algorithms = 0xC000,
      cipher_algo = CIPHERING_ALGORITHM_ID_EEA0, integ_algo = INTEGRITY_ALGORITHM_ID_EIA0\<rparr>"
  let ?s' = "?s\<lparr>cipher_algo := CIPHERING_ALGORITHM_ID_128_EEA1,
                 integ_algo := INTEGRITY_ALGORITHM_ID_128_EIA2\<rparr>"
  have b: "bit (0x8000::u16) 15" "\<not> bit (0x8000::u16) 14" "bit (0xC000::u16) 14"
    by simp_all
  have e: "select_security_algorithms ?s = (True, ?s')"
    by (simp add: select_security_algorithms_def bitstring_get_def bitstring_length_def b Let_def)
  have f1: "find (eea_supported (encryption_algorithms ?s)) (eea_preference_list ?s) =
              Some CIPHERING_ALGORITHM_ID_128_EEA1" by (simp add: b)
  have f2: "find (eia_supported (integrity_protection_algorithms ?s)) (eia_preference_list ?s) =
              Some INTEGRITY_ALGORITHM_ID_128_EIA2" by (simp add: b)
  from select_security_algorithms_first_match[OF e]
  have "cipher_algo ?s' = CIPHERING_ALGORITHM_ID_128_EEA1 \<and>
        integ_algo ?s' = INTEGRITY_ALGORITHM_ID_128_EIA2"
    unfolding f1 f2 by simp
  with e f1 f2 show ?thesis by simp
qed











section \<open>Measurement configuration: applying the diff\<close>

lemma keys_ok_distinct: "keys_ok xs \<Longrightarrow> distinct (map fst xs)"
  by (simp add: keys_ok_def strict_sorted_iff)

lemma keys_ok_sorted: "keys_ok xs \<Longrightarrow> sorted (map fst xs)"
  by (simp add: keys_ok_def strict_sorted_iff)

lemma keys_ok_filter: "keys_ok xs \<Longrightarrow> keys_ok (filter P xs)"
  unfolding keys_ok_def sorted_wrt_map by (rule sorted_wrt_filter)

lemma keyed_unique:
  assumes "keys_ok xs" and "keys_ok ys" and "map_of xs = map_of ys"
  shows "xs = ys"
proof -
  have dx: "distinct (map fst xs)" and dy: "distinct (map fst ys)"
    using assms(1,2) by (simp_all add: keys_ok_distinct)
  then have s: "set xs = set ys" using assms(3) by (simp add: map_of_inject_set)
  have "inj_on fst (set xs)" using dx by (simp add: distinct_map)
  then have "inj_on fst (set xs \<union> set ys)" using s by simp
  then show ?thesis
    using assms(1,2) s dx dy
    by (intro map_sorted_distinct_set_unique[of fst]) (simp_all add: keys_ok_sorted)
qed

lemma map_of_key_filter:
  "map_of (filter (\<lambda>e. P (fst e)) xs) k = (if P k then map_of xs k else None)"
  by (induction xs) auto

lemma map_of_add_mod_entry:
  "map_of (add_mod_entry k v xs) k' = (if k' = k then Some v else map_of xs k')"
proof -
  have a: "map_of (filter (\<lambda>e. fst e < k) xs) k' = (if k' < k then map_of xs k' else None)"
    by (rule map_of_key_filter[of "\<lambda>a. a < k"])
  have b: "map_of (filter (\<lambda>e. k < fst e) xs) k' = (if k < k' then map_of xs k' else None)"
    by (rule map_of_key_filter[of "\<lambda>a. k < a"])
  show ?thesis
    by (auto simp: add_mod_entry_def a b map_add_def split: option.splits)
qed

lemma keys_ok_add_mod_entry:
  assumes "keys_ok xs"
  shows "keys_ok (add_mod_entry k v xs)"
proof -
  have l: "sorted_wrt (<) (map fst (filter (\<lambda>e. fst e < k) xs))"
    and r: "sorted_wrt (<) (map fst (filter (\<lambda>e. k < fst e) xs))"
    using keys_ok_filter[OF assms] by (simp_all add: keys_ok_def)
  show ?thesis
    unfolding keys_ok_def add_mod_entry_def using l r
    by (auto simp: sorted_wrt_append)
qed

lemma keys_ok_apply_add_mod: "keys_ok xs \<Longrightarrow> keys_ok (apply_add_mod es xs)"
  unfolding apply_add_mod_def
  by (induction es arbitrary: xs) (simp_all add: keys_ok_add_mod_entry)

lemma map_of_apply_add_mod:
  assumes "distinct (map fst es)"
  shows "map_of (apply_add_mod es xs) k =
           (case map_of es k of Some v \<Rightarrow> Some v | None \<Rightarrow> map_of xs k)"
  using assms
proof (induction es arbitrary: xs)
  case Nil then show ?case by (simp add: apply_add_mod_def)
next
  case (Cons e es)
  then have d: "distinct (map fst es)" and n: "fst e \<notin> fst ` set es" by simp_all
  have u: "apply_add_mod (e # es) xs = apply_add_mod es (add_mod_entry (fst e) (snd e) xs)"
    by (simp add: apply_add_mod_def)
  have none: "map_of es (fst e) = None" using n by (simp add: map_of_eq_None_iff)
  show ?case
    unfolding u Cons.IH[OF d] using none
    by (cases e) (auto simp: map_of_add_mod_entry split: option.splits)
qed

lemma apply_rem_to_rem:
  "apply_rem (to_rem src tgt) src = filter (\<lambda>e. map_of tgt (fst e) \<noteq> None) src"
proof -
  have "fst e \<in> set (to_rem src tgt) \<longleftrightarrow> map_of tgt (fst e) = None" if "e \<in> set src" for e
    using that by (auto simp: to_rem_def)
  then show ?thesis unfolding apply_rem_def by (intro filter_cong) auto
qed

lemma map_of_to_add_mod:
  assumes "keys_ok tgt"
  shows "map_of (to_add_mod src tgt) k =
           (case map_of tgt k of None \<Rightarrow> None
            | Some v \<Rightarrow> if map_of src k = Some v then None else Some v)"
proof (cases "map_of tgt k")
  case None
  then have "k \<notin> fst ` set tgt" by (simp add: map_of_eq_None_iff)
  then have "k \<notin> fst ` set (to_add_mod src tgt)" by (auto simp: to_add_mod_def)
  then have "map_of (to_add_mod src tgt) k = None" by (simp add: map_of_eq_None_iff)
  then show ?thesis by (simp add: None)
next
  case (Some v)
  have d: "distinct (map fst tgt)" using assms by (rule keys_ok_distinct)
  have dd: "distinct (map fst (to_add_mod src tgt))"
    unfolding to_add_mod_def using d by (rule distinct_map_filter)
  have in_t: "(k, v) \<in> set tgt" using Some by (rule map_of_SomeD)
  show ?thesis
  proof (cases "map_of src k = Some v")
    case True
    have "k \<notin> fst ` set (to_add_mod src tgt)"
    proof
      assume "k \<in> fst ` set (to_add_mod src tgt)"
      then obtain w where w: "(k, w) \<in> set tgt" "map_of src k \<noteq> Some w"
        by (auto simp: to_add_mod_def)
      then have "map_of tgt k = Some w" using d by simp
      with Some True w show False by simp
    qed
    then have "map_of (to_add_mod src tgt) k = None" by (simp add: map_of_eq_None_iff)
    then show ?thesis by (simp add: Some True)
  next
    case False
    then have "(k, v) \<in> set (to_add_mod src tgt)" using in_t by (simp add: to_add_mod_def)
    then have "map_of (to_add_mod src tgt) k = Some v" using dd by simp
    then show ?thesis using Some False by simp
  qed
qed

lemma keyed_roundtrip:
  assumes "keys_ok src" and "keys_ok tgt"
  shows "apply_add_mod (to_add_mod src tgt) (apply_rem (to_rem src tgt) src) = tgt"
proof (rule keyed_unique)
  show "keys_ok (apply_add_mod (to_add_mod src tgt) (apply_rem (to_rem src tgt) src))"
    unfolding apply_rem_def by (intro keys_ok_apply_add_mod keys_ok_filter assms(1))
  show "keys_ok tgt" by (rule assms(2))
  have dd: "distinct (map fst (to_add_mod src tgt))"
    unfolding to_add_mod_def using keys_ok_distinct[OF assms(2)] by (rule distinct_map_filter)
  have r: "map_of (apply_rem (to_rem src tgt) src) k =
             (if map_of tgt k \<noteq> None then map_of src k else None)" for k
    unfolding apply_rem_to_rem by (rule map_of_key_filter[of "\<lambda>a. map_of tgt a \<noteq> None"])
  show "map_of (apply_add_mod (to_add_mod src tgt) (apply_rem (to_rem src tgt) src)) = map_of tgt"
  proof
    fix k
    show "map_of (apply_add_mod (to_add_mod src tgt) (apply_rem (to_rem src tgt) src)) k = map_of tgt k"
      unfolding map_of_apply_add_mod[OF dd] map_of_to_add_mod[OF assms(2)] r
      by (cases "map_of tgt k") auto
  qed
qed

lemma keyed_diff_same:
  assumes "keys_ok c"
  shows "to_rem c c = []" and "to_add_mod c c = []"
proof -
  have "map_of c (fst e) \<noteq> None" if "e \<in> set c" for e
    using that by (simp add: map_of_eq_None_iff)
  then show "to_rem c c = []" by (auto simp: to_rem_def filter_empty_conv)
  have "map_of c (fst e) = Some (snd e)" if "e \<in> set c" for e
    using map_of_is_SomeI[OF keys_ok_distinct[OF assms], of "fst e" "snd e"] that by simp
  then show "to_add_mod c c = []" by (auto simp: to_add_mod_def filter_empty_conv)
qed

lemma apply_rem_Nil: "apply_rem [] xs = xs"
  by (simp add: apply_rem_def)

lemma apply_add_mod_Nil: "apply_add_mod [] xs = xs"
  by (simp add: apply_add_mod_def)

lemma cells_of_add_mod_entry:
  "k' \<noteq> k \<Longrightarrow> cells_of (add_mod_entry k v xs) k' = cells_of xs k'"
  by (simp add: cells_of_def map_of_add_mod_entry)

lemma apply_meas_obj_diff:
  assumes "cells_of xs (fst e) = sc" and "keys_ok sc" and "keys_ok (cells (snd e))"
  shows "apply_meas_obj (fst e, diff_meas_obj sc (snd e)) xs = add_mod_entry (fst e) (snd e) xs"
proof -
  let ?ob = "snd e"
  have c1: "(if to_rem sc (cells ?ob) \<noteq> [] then apply_rem (to_rem sc (cells ?ob)) sc else sc) =
            apply_rem (to_rem sc (cells ?ob)) sc"
    by (simp add: apply_rem_Nil)
  have c2: "(if to_add_mod sc (cells ?ob) \<noteq> []
             then apply_add_mod (to_add_mod sc (cells ?ob)) (apply_rem (to_rem sc (cells ?ob)) sc)
             else apply_rem (to_rem sc (cells ?ob)) sc) =
            apply_add_mod (to_add_mod sc (cells ?ob)) (apply_rem (to_rem sc (cells ?ob)) sc)"
    by (simp add: apply_add_mod_Nil)
  have rt: "apply_add_mod (to_add_mod sc (cells ?ob)) (apply_rem (to_rem sc (cells ?ob)) sc) = cells ?ob"
    by (rule keyed_roundtrip[OF assms(2,3)])
  have ob: "\<lparr>earfcn = earfcn ?ob, cells = cells ?ob\<rparr> = ?ob" by simp
  show ?thesis
    unfolding apply_meas_obj_def diff_meas_obj_def Let_def
    apply (simp only: fst_conv snd_conv meas_obj_to_add_mod.select_convs assms(1))
    apply (simp only: c1)
    apply (simp only: c2)
    apply (simp only: rt ob)
    done
qed

lemma fold_apply_meas_obj:
  assumes "distinct (map fst es)"
    and "\<forall>e \<in> set es. cells_of xs (fst e) = cells_of src (fst e)"
    and "\<forall>e \<in> set es. keys_ok (cells_of src (fst e)) \<and> keys_ok (cells (snd e))"
  shows "fold apply_meas_obj (map (\<lambda>e. (fst e, diff_meas_obj (cells_of src (fst e)) (snd e))) es) xs =
         apply_add_mod es xs"
  using assms
proof (induction es arbitrary: xs)
  case Nil then show ?case by (simp add: apply_add_mod_def)
next
  case (Cons e es)
  have step: "apply_meas_obj (fst e, diff_meas_obj (cells_of src (fst e)) (snd e)) xs =
              add_mod_entry (fst e) (snd e) xs"
    using Cons.prems by (intro apply_meas_obj_diff) simp_all
  have d: "distinct (map fst es)" using Cons.prems(1) by simp
  have "fst e \<notin> fst ` set es" using Cons.prems(1) by simp
  then have n: "\<forall>e' \<in> set es. fst e' \<noteq> fst e" by (metis imageI)
  have inv: "\<forall>e' \<in> set es. cells_of (add_mod_entry (fst e) (snd e) xs) (fst e') = cells_of src (fst e')"
    using n Cons.prems(2) by (simp add: cells_of_add_mod_entry)
  have ok: "\<forall>e' \<in> set es. keys_ok (cells_of src (fst e')) \<and> keys_ok (cells (snd e'))"
    using Cons.prems(3) by simp
  show ?case
    using Cons.IH[OF d inv ok] by (simp add: step apply_add_mod_def)
qed

lemma keys_ok_cells_of:
  assumes "\<forall>e \<in> set objs. keys_ok (cells (snd e))"
  shows "keys_ok (cells_of objs k)"
proof (cases "map_of objs k")
  case None then show ?thesis by (simp add: cells_of_def keys_ok_def)
next
  case (Some ob)
  then have "(k, ob) \<in> set objs" by (rule map_of_SomeD)
  with assms have "keys_ok (cells ob)" by force
  then show ?thesis by (simp add: cells_of_def Some)
qed

lemma meas_objs_roundtrip:
  assumes "keys_ok src" and "keys_ok tgt"
    and "\<forall>e \<in> set src. keys_ok (cells (snd e))" and "\<forall>e \<in> set tgt. keys_ok (cells (snd e))"
  shows "fold apply_meas_obj
           (map (\<lambda>e. (fst e, diff_meas_obj (cells_of src (fst e)) (snd e))) (to_add_mod src tgt))
           (apply_rem (to_rem src tgt) src) = tgt"
proof -
  have dd: "distinct (map fst (to_add_mod src tgt))"
    unfolding to_add_mod_def using keys_ok_distinct[OF assms(2)] by (rule distinct_map_filter)
  have sub: "set (to_add_mod src tgt) \<subseteq> set tgt" by (auto simp: to_add_mod_def)
  have same: "\<forall>e \<in> set (to_add_mod src tgt).
                 cells_of (apply_rem (to_rem src tgt) src) (fst e) = cells_of src (fst e)"
  proof
    fix e assume "e \<in> set (to_add_mod src tgt)"
    then have "e \<in> set tgt" using sub by blast
    then have "map_of tgt (fst e) \<noteq> None" by (simp add: map_of_eq_None_iff)
    then have "map_of (apply_rem (to_rem src tgt) src) (fst e) = map_of src (fst e)"
      unfolding apply_rem_to_rem
      using map_of_key_filter[of "\<lambda>a. map_of tgt a \<noteq> None" src "fst e"] by simp
    then show "cells_of (apply_rem (to_rem src tgt) src) (fst e) = cells_of src (fst e)"
      by (simp add: cells_of_def)
  qed
  have ok: "\<forall>e \<in> set (to_add_mod src tgt). keys_ok (cells_of src (fst e)) \<and> keys_ok (cells (snd e))"
    using sub assms(4) keys_ok_cells_of[OF assms(3)] by blast
  show ?thesis
    unfolding fold_apply_meas_obj[OF dd same ok] by (rule keyed_roundtrip[OF assms(1,2)])
qed

text \<open>
  C2. For every pair of well-formed measurement configurations (each keyed list an
  ordered set, at both levels), applying to the source the delta that the diff produces
  from the source and the target yields the target; and the diff of a well-formed
  configuration with itself is the empty delta, in which no presence flag (measurement
  objects, report configurations and measurement identities, to add or modify and to
  remove) is set. The diff and the application of a delta are modelled from the spec.
\<close>

theorem meas_cfg_diff_roundtrip:
  assumes "var_meas_cfg_ok src" and "var_meas_cfg_ok tgt"
  shows "apply_meas_cfg (compute_diff_meas_cfg src tgt) src = tgt \<and>
         compute_diff_meas_cfg tgt tgt = empty_meas_cfg"
proof
  have o: "fold apply_meas_obj
           (map (\<lambda>e. (fst e, diff_meas_obj (cells_of (var_meas_objs src) (fst e)) (snd e)))
              (to_add_mod (var_meas_objs src) (var_meas_objs tgt)))
           (apply_rem (to_rem (var_meas_objs src) (var_meas_objs tgt)) (var_meas_objs src)) =
           var_meas_objs tgt"
    using assms by (intro meas_objs_roundtrip) (simp_all add: var_meas_cfg_ok_def)
  have r: "apply_add_mod (to_add_mod (var_report_cfgs src) (var_report_cfgs tgt))
             (apply_rem (to_rem (var_report_cfgs src) (var_report_cfgs tgt)) (var_report_cfgs src)) =
           var_report_cfgs tgt"
    using assms by (intro keyed_roundtrip) (simp_all add: var_meas_cfg_ok_def)
  have i: "apply_add_mod (to_add_mod (var_meas_ids src) (var_meas_ids tgt))
             (apply_rem (to_rem (var_meas_ids src) (var_meas_ids tgt)) (var_meas_ids src)) =
           var_meas_ids tgt"
    using assms by (intro keyed_roundtrip) (simp_all add: var_meas_cfg_ok_def)
  have skip_rem: "(if l \<noteq> [] then apply_rem l xs else xs) = apply_rem l xs" for l and xs :: "'v keyed"
    by (simp add: apply_rem_Nil)
  have skip_add: "(if l \<noteq> [] then apply_add_mod l xs else xs) = apply_add_mod l xs"
    for l xs :: "'v keyed"
    by (simp add: apply_add_mod_Nil)
  have skip_obj: "(if l \<noteq> [] then fold apply_meas_obj l xs else xs) = fold apply_meas_obj l xs"
    for l xs by simp
  show "apply_meas_cfg (compute_diff_meas_cfg src tgt) src = tgt"
    unfolding apply_meas_cfg_def compute_diff_meas_cfg_def Let_def
    apply (simp only: meas_cfg.select_convs)
    apply (simp only: skip_rem)
    apply (simp only: skip_add skip_obj)
    apply (simp only: o r i)
    apply simp
    done
  have "keys_ok (var_meas_objs tgt)" "keys_ok (var_report_cfgs tgt)" "keys_ok (var_meas_ids tgt)"
    using assms(2) by (simp_all add: var_meas_cfg_ok_def)
  then show "compute_diff_meas_cfg tgt tgt = empty_meas_cfg"
    by (simp add: compute_diff_meas_cfg_def empty_meas_cfg_def keyed_diff_same)
qed

theorem meas_cfg_diff_roundtrip_witness:
  "var_meas_cfg_ok example_src_cfg \<and> var_meas_cfg_ok example_tgt_cfg \<and>
   apply_meas_cfg (compute_diff_meas_cfg example_src_cfg example_tgt_cfg) example_src_cfg =
     example_tgt_cfg \<and>
   compute_diff_meas_cfg example_tgt_cfg example_tgt_cfg = empty_meas_cfg \<and>
   meas_obj_to_add_mod_list (compute_diff_meas_cfg example_src_cfg example_tgt_cfg) =
     [(1, \<lparr>carrier_freq = 3400, cells_to_rem_list_present = True, cells_to_rem_list = [1],
           cells_to_add_mod_list_present = False, cells_to_add_mod_list = []\<rparr>)] \<and>
   meas_id_to_rem_list (compute_diff_meas_cfg example_src_cfg example_tgt_cfg) = [1, 2]"
proof -
  have h1: "var_meas_cfg_ok example_src_cfg"
    by (simp add: var_meas_cfg_ok_def example_src_cfg_def keys_ok_def)
  have h2: "var_meas_cfg_ok example_tgt_cfg"
    by (simp add: var_meas_cfg_ok_def example_tgt_cfg_def keys_ok_def)
  have d1: "meas_obj_to_add_mod_list (compute_diff_meas_cfg example_src_cfg example_tgt_cfg) =
     [(1, \<lparr>carrier_freq = 3400, cells_to_rem_list_present = True, cells_to_rem_list = [1],
           cells_to_add_mod_list_present = False, cells_to_add_mod_list = []\<rparr>)]"
    by (simp add: compute_diff_meas_cfg_def example_src_cfg_def example_tgt_cfg_def Let_def
          to_add_mod_def to_rem_def diff_meas_obj_def cells_of_def)
  have d2: "meas_id_to_rem_list (compute_diff_meas_cfg example_src_cfg example_tgt_cfg) = [1, 2]"
    by (simp add: compute_diff_meas_cfg_def example_src_cfg_def example_tgt_cfg_def Let_def
          to_rem_def)
  from meas_cfg_diff_roundtrip[OF h1 h2] h1 h2 d1 d2 show ?thesis by blast
qed

end
